(* ===== verification/Prelude.thy ===== *)
theory Prelude
  imports Main "HOL-Library.Word"
begin

text \<open>
  Shared vocabulary of the development of \<^verbatim>\<open>src/updater.js\<close>: the type of bytes,
  the collections of rewrite rules the component theories contribute to, and
  generic lemmas on lists and association lists that several components use.
\<close>

section \<open>Rule collections\<close>

text \<open>
  \<open>js_eval\<close> collects the equations that evaluate the JavaScript value model on
  concrete inputs (used by the witnesses); \<open>merge_eval\<close> those of the merge
  engine.
\<close>

named_theorems js_eval "equations that evaluate the JavaScript value model"
named_theorems merge_eval "equations that evaluate the merge engine"

section \<open>Bytes and characters\<close>

text \<open>
  Strings are modelled as \<open>string\<close> (\<open>char list\<close>), one \<open>char\<close> per UTF-8 byte.
  File contents and stream chunks are byte lists.
\<close>

type_synonym byte = "8 word"

definition byte_of :: "char \<Rightarrow> byte" where
  "byte_of c = of_char c"

definition char_of_byte :: "byte \<Rightarrow> char" where
  "char_of_byte b = char_of (unat b)"

lemma unat_byte_of: "unat (byte_of c) = of_char c"
proof -
  have "of_char c < (256::nat)"
    by (metis of_char_mod_256 mod_less_divisor zero_less_numeral)
  moreover have "byte_of c = word_of_nat (of_char c)"
    by (simp add: byte_of_def of_nat_of_char)
  ultimately show ?thesis by (simp add: unat_of_nat)
qed

lemma char_of_byte_of [simp]: "char_of_byte (byte_of c) = c"
  by (simp add: char_of_byte_def unat_byte_of)

text \<open>A lower-case hexadecimal digit, as \<^verbatim>\<open>digest("hex")\<close> and \<^verbatim>\<open>JSON.stringify\<close> write them.\<close>

definition hex_lower :: "byte \<Rightarrow> char" where
  "hex_lower d = ''0123456789abcdef'' ! unat d"

lemma hex_lower_digit: "unat d < 16 \<Longrightarrow> hex_lower d \<in> set ''0123456789abcdef''"
  unfolding hex_lower_def by (rule nth_mem) simp

section \<open>Decimal rendering of natural numbers\<close>

text \<open>The decimal digits of a number, as \<open>Number.prototype.toString\<close> prints an index.\<close>

fun show_nat :: "nat \<Rightarrow> string" where
  "show_nat n =
     (if n < 10 then [char_of (48 + n)]
      else show_nat (n div 10) @ [char_of (48 + n mod 10)])"

declare show_nat.simps [simp del]

section \<open>Lists\<close>

lemma take_append_prefix [simp]: "take (length p) (p @ q) = p"
  by simp

lemma filter_not_member_eq: "(\<forall>x\<in>set xs. P x) \<Longrightarrow> filter P xs = xs"
  by (induction xs) auto

section \<open>Association lists with unique keys\<close>

text \<open>
  A JavaScript object's own properties are an association list in insertion order
  with unique keys. \<open>alist_put\<close> is property assignment: the value of an existing key
  is replaced in place, a new key is appended at the end.
\<close>

fun alist_put :: "('k \<times> 'v) list \<Rightarrow> 'k \<Rightarrow> 'v \<Rightarrow> ('k \<times> 'v) list" where
  "alist_put [] k v = [(k, v)]"
| "alist_put ((k', v') # kvs) k v =
     (if k' = k then (k, v) # kvs else (k', v') # alist_put kvs k v)"

definition alist_del :: "('k \<times> 'v) list \<Rightarrow> 'k \<Rightarrow> ('k \<times> 'v) list" where
  "alist_del kvs k = filter (\<lambda>(k', _). k' \<noteq> k) kvs"

lemma map_of_alist_put [simp]: "map_of (alist_put kvs k v) = (map_of kvs)(k \<mapsto> v)"
  by (induction kvs) (auto simp: fun_eq_iff)

lemma keys_alist_put [simp]: "fst ` set (alist_put kvs k v) = insert k (fst ` set kvs)"
proof (induction kvs)
  case Nil
  then show ?case by simp
next
  case (Cons kv kvs)
  then show ?case by (cases kv) auto
qed

lemma distinct_alist_put [simp]:
  "distinct (map fst kvs) \<Longrightarrow> distinct (map fst (alist_put kvs k v))"
proof (induction kvs)
  case Nil
  then show ?case by simp
next
  case (Cons kv kvs)
  then show ?case by (cases kv) auto
qed

lemma alist_put_absent: "k \<notin> set (map fst kvs) \<Longrightarrow> alist_put kvs k v = kvs @ [(k, v)]"
  by (induction kvs) auto

lemma alist_put_existing:
  "k \<in> set (map fst kvs) \<Longrightarrow> map fst (alist_put kvs k v) = map fst kvs"
proof (induction kvs)
  case Nil
  then show ?case by simp
next
  case (Cons kv kvs)
  then show ?case by (cases kv) auto
qed

lemma alist_put_put [simp]: "alist_put (alist_put kvs k v) k w = alist_put kvs k w"
  by (induction kvs) auto

lemma set_alist_put: "set (alist_put kvs k v) \<subseteq> insert (k, v) (set kvs)"
  by (induction kvs) (auto split: if_splits)

text \<open>A property of every value of an association list survives an assignment of such a value.\<close>

lemma list_all_alist_put:
  "list_all (\<lambda>kv. P (snd kv)) kvs \<Longrightarrow> P v \<Longrightarrow> list_all (\<lambda>kv. P (snd kv)) (alist_put kvs k v)"
  using set_alist_put [of kvs k v] by (auto simp: list_all_iff)

lemma map_of_alist_del [simp]: "map_of (alist_del kvs k) = (map_of kvs)(k := None)"
  by (induction kvs) (auto simp: alist_del_def fun_eq_iff)

lemma distinct_alist_del [simp]:
  "distinct (map fst kvs) \<Longrightarrow> distinct (map fst (alist_del kvs k))"
  unfolding alist_del_def by (induction kvs) (auto simp: case_prod_beta)

lemmas alist_eval [js_eval] = alist_put.simps alist_del_def Let_def

section \<open>Outcomes of a run\<close>

text \<open>
  The script ends a run with \<^verbatim>\<open>process.exit(-1)\<close> after one of the messages below,
  or returns normally; \<open>failure\<close> names the message of each abnormal end. The console
  messages that do not end the run are \<open>log\<close> values, in the order they are printed.
\<close>

datatype failure =
    Err_Usage           \<comment> \<open>no archive path: usage text, line 45\<close>
  | Err_FileMissing string  \<comment> \<open>"File <path> does not exist", line 52\<close>
  | Err_NoAddonId       \<comment> \<open>"Add-on id not found in manifest", line 111\<close>
  | Err_NoUpdateUrl     \<comment> \<open>"No update URL specified nor reused", line 134\<close>
  | Err_ManifestParse   \<comment> \<open>"Could not parse manifest": any exception in lines 104--137, line 165\<close>
  | Err_Hash            \<comment> \<open>"Could not compute hash": any rejection or exception in lines 140--145, line 159\<close>
  | Err_Write string     \<comment> \<open>"Could not write update file <path> : ...", line 152\<close>
  | Err_ArchiveCrash    \<comment> \<open>an unhandled \<^verbatim>\<open>error\<close> event of the unzip parser, lines 75--99\<close>

datatype log =
    Warn_UpdateFileUnreadable string  \<comment> \<open>line 70: the input path\<close>
  | Err_NoManifestInArchive string    \<comment> \<open>line 96: the archive path; \<^verbatim>\<open>console.error\<close> but not fatal\<close>
  | Warn_Unsigned string              \<comment> \<open>line 98: the archive path\<close>
  | Warn_DuplicateVersion string      \<comment> \<open>line 120: the new version as the console prints it\<close>
  | Info_ReusingUrl string string  \<comment> \<open>line 131: the former link and the new one\<close>
  | Info_Written string               \<comment> \<open>line 150: the output path\<close>
  | Info_NoOutputPath           \<comment> \<open>line 162\<close>

text \<open>A string-valued option of the command line, tested with \<^verbatim>\<open>if (x)\<close>: absent and empty are false.\<close>

definition str_truthy :: "string option \<Rightarrow> bool" where
  "str_truthy x = (case x of None \<Rightarrow> False | Some s \<Rightarrow> s \<noteq> [])"

lemma str_truthy_simps [simp, js_eval]:
  "str_truthy None = False" "str_truthy (Some s) = (s \<noteq> [])"
  by (simp_all add: str_truthy_def)

end
