(* ===== verification/JsValue.thy ===== *)
theory JsValue
  imports Prelude
begin

text \<open>
  The JavaScript values that \<^verbatim>\<open>src/updater.js\<close> manipulates: the results of
  \<^verbatim>\<open>JSON.parse\<close> (the update manifest read with \<^verbatim>\<open>--update-in\<close> and the
  add-on's \<^verbatim>\<open>manifest.json\<close>), the property reads, truthiness tests, strict
  equalities, string conversions and \<^verbatim>\<open>Object.assign\<close> that the script applies
  to them. \<open>None\<close> of type \<open>jsval\<close> is \<^verbatim>\<open>undefined\<close>. A number is kept as the
  text \<^verbatim>\<open>Number.prototype.toString\<close> prints for it: the script only tests,
  compares, copies and prints numbers, and that text identifies a finite double up to
  \<^verbatim>\<open>===\<close> (\<^verbatim>\<open>0\<close> and \<^verbatim>\<open>-0\<close> both print as \<^verbatim>\<open>0\<close>). Object keys that name
  members of \<^verbatim>\<open>Object.prototype\<close> and the index and \<^verbatim>\<open>length\<close> properties of
  arrays and strings are not modelled as readable properties.
\<close>

section \<open>Values\<close>

datatype json =
    JNull
  | JBool bool
  | JNum string
  | JStr string
  | JArr "json list"
  | JObj "(string \<times> json) list"

type_synonym jsval = "json option"

datatype js_exc = TypeError

section \<open>Truthiness\<close>

text \<open>The \<^verbatim>\<open>ToBoolean\<close> conversion behind \<^verbatim>\<open>if (x)\<close>, \<^verbatim>\<open>!x\<close>, \<^verbatim>\<open>&&\<close> and \<^verbatim>\<open>||\<close>.\<close>

fun js_truthy :: "jsval \<Rightarrow> bool" where
  "js_truthy None = False"
| "js_truthy (Some JNull) = False"
| "js_truthy (Some (JBool b)) = b"
| "js_truthy (Some (JNum n)) = (n \<noteq> ''0'')"
| "js_truthy (Some (JStr s)) = (s \<noteq> [])"
| "js_truthy (Some (JArr xs)) = True"
| "js_truthy (Some (JObj kvs)) = True"

section \<open>Property access\<close>

fun own_prop :: "json \<Rightarrow> string \<Rightarrow> jsval" where
  "own_prop (JObj kvs) k = map_of kvs k"
| "own_prop v k = None"

text \<open>\<^verbatim>\<open>v[k]\<close>: reading a property of \<^verbatim>\<open>null\<close> or \<^verbatim>\<open>undefined\<close> throws.\<close>

definition js_get :: "jsval \<Rightarrow> string \<Rightarrow> js_exc + jsval" where
  "js_get v k =
     (case v of
        None \<Rightarrow> Inl TypeError
      | Some JNull \<Rightarrow> Inl TypeError
      | Some x \<Rightarrow> Inr (own_prop x k))"

text \<open>The read of a value already known to be truthy, which cannot throw.\<close>

definition prop_of :: "jsval \<Rightarrow> string \<Rightarrow> jsval" where
  "prop_of v k = (case v of None \<Rightarrow> None | Some x \<Rightarrow> own_prop x k)"

lemma js_get_truthy [simp]: "js_truthy v \<Longrightarrow> js_get v k = Inr (prop_of v k)"
  by (cases v rule: js_truthy.cases) (simp_all add: js_get_def prop_of_def)

lemma js_get_Some_obj [simp]: "js_get (Some (JObj kvs)) k = Inr (map_of kvs k)"
  by (simp add: js_get_def)

lemma js_get_own: "x \<noteq> JNull \<Longrightarrow> js_get (Some x) k = Inr (own_prop x k)"
  by (cases x) (simp_all add: js_get_def)

lemma own_prop_not_null: "own_prop x k = Some v \<Longrightarrow> x \<noteq> JNull"
  by auto

lemma js_truthy_not_null: "js_truthy v \<Longrightarrow> v \<noteq> None \<and> v \<noteq> Some JNull"
  by (cases v rule: js_truthy.cases) auto

section \<open>Strict equality\<close>

text \<open>
  \<^verbatim>\<open>a === b\<close>. Arrays and objects are compared by reference; every comparison the
  script makes is between values of two different \<^verbatim>\<open>JSON.parse\<close> results, so two
  arrays or objects are never strictly equal there.
\<close>

fun js_strict_eq :: "jsval \<Rightarrow> jsval \<Rightarrow> bool" where
  "js_strict_eq None None = True"
| "js_strict_eq (Some JNull) (Some JNull) = True"
| "js_strict_eq (Some (JBool a)) (Some (JBool b)) = (a = b)"
| "js_strict_eq (Some (JNum a)) (Some (JNum b)) = (a = b)"
| "js_strict_eq (Some (JStr a)) (Some (JStr b)) = (a = b)"
| "js_strict_eq a b = False"

lemma js_strict_eq_sym: "js_strict_eq a b = js_strict_eq b a"
  by (cases "(a, b)" rule: js_strict_eq.cases) auto

lemma js_strict_eq_str [simp]: "js_strict_eq v (Some (JStr s)) \<longleftrightarrow> v = Some (JStr s)"
  by (cases "(v, Some (JStr s))" rule: js_strict_eq.cases) auto

section \<open>Conversion to string\<close>

text \<open>
  \<^verbatim>\<open>String(v)\<close>, as \<^verbatim>\<open>encodeURIComponent\<close> and a computed property key apply
  it. An array prints as \<^verbatim>\<open>Array.prototype.join\<close> with \<^verbatim>\<open>","\<close>, where
  \<^verbatim>\<open>null\<close> elements print as the empty string.
\<close>

fun join_with :: "string \<Rightarrow> string list \<Rightarrow> string" where
  "join_with sep [] = []"
| "join_with sep [s] = s"
| "join_with sep (s # ss) = s @ sep @ join_with sep ss"

fun json_to_string :: "json \<Rightarrow> string" where
  "json_to_string JNull = ''null''"
| "json_to_string (JBool b) = (if b then ''true'' else ''false'')"
| "json_to_string (JNum n) = n"
| "json_to_string (JStr s) = s"
| "json_to_string (JArr xs) =
     join_with '','' (map (\<lambda>x. case x of JNull \<Rightarrow> [] | _ \<Rightarrow> json_to_string x) xs)"
| "json_to_string (JObj kvs) = ''[object Object]''"

fun js_to_string :: "jsval \<Rightarrow> string" where
  "js_to_string None = ''undefined''"
| "js_to_string (Some v) = json_to_string v"

section \<open>Object.assign\<close>

text \<open>
  The own enumerable properties \<^verbatim>\<open>Object.assign\<close> copies from a source: an
  object's properties in order, an array's or a string's indexed elements;
  \<^verbatim>\<open>null\<close>, \<^verbatim>\<open>undefined\<close>, booleans and numbers have none.
\<close>

fun own_enum_props :: "jsval \<Rightarrow> (string \<times> jsval) list" where
  "own_enum_props (Some (JObj kvs)) = map (\<lambda>(k, v). (k, Some v)) kvs"
| "own_enum_props (Some (JArr xs)) = zip (map show_nat [0..<length xs]) (map Some xs)"
| "own_enum_props (Some (JStr s)) =
     zip (map show_nat [0..<length s]) (map (\<lambda>c. Some (JStr [c])) s)"
| "own_enum_props v = []"

text \<open>
  \<^verbatim>\<open>Object.assign(target, ...sources)\<close>: each property of each source is assigned to
  the target in turn. The object under construction may hold \<^verbatim>\<open>undefined\<close>
  values (\<^verbatim>\<open>{version: manifest.version}\<close> when the add-on manifest has no
  version); \<^verbatim>\<open>JSON.stringify\<close> drops such properties, which
  \<open>drop_undefined\<close> does when the object is stored as JSON.
\<close>

definition object_assign ::
  "(string \<times> jsval) list \<Rightarrow> (string \<times> jsval) list list \<Rightarrow> (string \<times> jsval) list" where
  "object_assign target sources =
     foldl (\<lambda>t kvs. foldl (\<lambda>t' (k, v). alist_put t' k v) t kvs) target sources"

definition drop_undefined :: "(string \<times> jsval) list \<Rightarrow> json" where
  "drop_undefined kvs = JObj (map (\<lambda>(k, v). (k, the v)) (filter (\<lambda>(k, v). v \<noteq> None) kvs))"

lemma map_of_foldl_put:
  "map_of (foldl (\<lambda>t' (k, v). alist_put t' k v) t kvs) = map_of t ++ map_of (rev kvs)"
  by (induction kvs arbitrary: t) (auto simp: map_add_def fun_eq_iff split: option.splits)

lemma distinct_foldl_put:
  "distinct (map fst t) \<Longrightarrow> distinct (map fst (foldl (\<lambda>t' (k, v). alist_put t' k v) t kvs))"
  by (induction kvs arbitrary: t) auto

lemma object_assign_concat:
  "object_assign t srcs = foldl (\<lambda>t' (k, v). alist_put t' k v) t (concat srcs)"
  by (induction srcs arbitrary: t) (simp_all add: object_assign_def)

lemma map_of_object_assign:
  "map_of (object_assign t srcs) = map_of t ++ map_of (rev (concat srcs))"
  by (simp add: object_assign_concat map_of_foldl_put)

lemma distinct_object_assign:
  "distinct (map fst t) \<Longrightarrow> distinct (map fst (object_assign t srcs))"
  by (simp add: object_assign_concat distinct_foldl_put)

lemma map_of_rev_distinct: "distinct (map fst kvs) \<Longrightarrow> map_of (rev kvs) = map_of kvs"
proof (induction kvs)
  case Nil
  then show ?case by simp
next
  case (Cons kv kvs)
  obtain a b where kv: "kv = (a, b)" by (cases kv)
  from Cons.prems kv have na: "map_of kvs a = None" and d: "distinct (map fst kvs)"
    by (auto simp: map_of_eq_None_iff)
  have "map_of (rev (kv # kvs)) = map_of [kv] ++ map_of (rev kvs)"
    by (simp add: map_of_append)
  also have "\<dots> = map_of [kv] ++ map_of kvs"
    using Cons.IH d by simp
  also have "\<dots> = map_of (kv # kvs)"
    using na kv by (auto simp: fun_eq_iff map_add_def split: option.splits)
  finally show ?case .
qed

lemma map_of_own_enum_obj:
  assumes "distinct (map fst kvs)"
  shows "map_of (rev (map (\<lambda>(k, v). (k, Some v)) kvs)) k = map_option Some (map_of kvs k)"
proof -
  have d': "distinct (map fst (map (\<lambda>(k, v). (k, Some v)) kvs))"
    using assms by (simp add: case_prod_beta comp_def)
  have "map_of (map (\<lambda>(k, v). (k, Some v)) kvs) k = map_option Some (map_of kvs k)"
    by (induction kvs) auto
  then show ?thesis using map_of_rev_distinct [OF d'] by simp
qed

lemma drop_undefined_distinct:
  "distinct (map fst kvs) \<Longrightarrow> \<exists>kvs'. drop_undefined kvs = JObj kvs' \<and> distinct (map fst kvs')"
proof -
  assume d: "distinct (map fst kvs)"
  have "map fst (map (\<lambda>(k, v). (k, the v)) (filter (\<lambda>(k, v). v \<noteq> None) kvs)) =
        map fst (filter (\<lambda>(k, v). v \<noteq> None) kvs)"
    by (induction kvs) auto
  moreover have "distinct (map fst (filter (\<lambda>(k, v). v \<noteq> None) kvs))"
    using d by (simp add: distinct_map_filter)
  ultimately show ?thesis by (simp add: drop_undefined_def del: map_map)
qed

lemma map_of_drop_undefined:
  "distinct (map fst kvs) \<Longrightarrow>
   own_prop (drop_undefined kvs) k = (case map_of kvs k of None \<Rightarrow> None | Some v \<Rightarrow> v)"
proof (induction kvs)
  case Nil
  then show ?case by (simp add: drop_undefined_def)
next
  case (Cons kv kvs)
  obtain k' v where kv: "kv = (k', v)" by (cases kv)
  show ?case
  proof (cases "k' = k")
    case True
    with Cons.prems kv have "map_of kvs k = None" by (simp add: map_of_eq_None_iff)
    with Cons.IH Cons.prems kv True show ?thesis by (auto simp: drop_undefined_def)
  next
    case False
    with Cons.IH Cons.prems kv show ?thesis by (auto simp: drop_undefined_def)
  qed
qed

section \<open>Property assignment\<close>

text \<open>
  \<^verbatim>\<open>x[k] = v\<close> on an object; the script runs in sloppy mode, where an assignment
  to a property of a primitive value is silently ignored.
\<close>

fun json_put :: "json \<Rightarrow> string \<Rightarrow> json \<Rightarrow> json" where
  "json_put (JObj kvs) k v = JObj (alist_put kvs k v)"
| "json_put x k v = x"

lemma own_prop_json_put_obj [simp]:
  "own_prop (json_put (JObj kvs) k v) k' = (if k' = k then Some v else map_of kvs k')"
  by simp

lemmas json_eval [js_eval] = js_get_def prop_of_def object_assign_def drop_undefined_def

end
