(* ===== verification/JsString.thy ===== *)
theory JsString
  imports JsValue
begin

unbundle bit_operations_syntax

text \<open>
  The string built-ins \<^verbatim>\<open>src/updater.js\<close> uses to compute an update link:
  \<^verbatim>\<open>encodeURIComponent\<close> (lines 129, 130, 137) and
  \<^verbatim>\<open>String.prototype.replace\<close> with a string pattern (lines 128, 137), which
  replaces the first occurrence only and expands the \<^verbatim>\<open>$\<close>-patterns of its
  replacement string. Strings are UTF-8 byte sequences, so the per-byte
  percent-encoding below is exactly \<^verbatim>\<open>encodeURIComponent\<close> on well-formed text.
\<close>

section \<open>Percent-encoding\<close>

text \<open>The characters \<^verbatim>\<open>encodeURIComponent\<close> leaves alone: \<^verbatim>\<open>A-Z a-z 0-9 - _ . ! ~ * ' ( )\<close>.\<close>

definition uri_unreserved :: "char \<Rightarrow> bool" where
  "uri_unreserved c =
     (let n = (of_char c :: nat) in
        (65 \<le> n \<and> n \<le> 90) \<or> (97 \<le> n \<and> n \<le> 122) \<or> (48 \<le> n \<and> n \<le> 57) \<or>
        n \<in> {45, 95, 46, 33, 126, 42, 39, 40, 41})"

definition hex_upper :: "byte \<Rightarrow> char" where
  "hex_upper d = ''0123456789ABCDEF'' ! unat d"

text \<open>One byte as \<^verbatim>\<open>%XY\<close>: the high nibble, then the low nibble, in upper case.\<close>

definition percent_byte :: "byte \<Rightarrow> string" where
  "percent_byte b = [CHR ''%'', hex_upper (drop_bit 4 b), hex_upper (b AND 15)]"

fun encode_uri_component :: "string \<Rightarrow> string" where
  "encode_uri_component [] = []"
| "encode_uri_component (c # cs) =
     (if uri_unreserved c then [c] else percent_byte (byte_of c)) @ encode_uri_component cs"

text \<open>
  The inverse, \<^verbatim>\<open>decodeURIComponent\<close> restricted to byte strings: it is not called
  by the script and serves to state that encoding loses nothing.
\<close>

definition hex_value :: "char \<Rightarrow> byte option" where
  "hex_value c =
     (let n = (of_char c :: nat) in
        if 48 \<le> n \<and> n \<le> 57 then Some (of_nat (n - 48))
        else if 65 \<le> n \<and> n \<le> 70 then Some (of_nat (n - 55))
        else if 97 \<le> n \<and> n \<le> 102 then Some (of_nat (n - 87))
        else None)"

fun decode_uri_component :: "string \<Rightarrow> string option" where
  "decode_uri_component [] = Some []"
| "decode_uri_component (c # cs) =
     (if c = CHR ''%'' then
        (case cs of
           h # l # rest \<Rightarrow>
             (case (hex_value h, hex_value l) of
                (Some hi, Some lo) \<Rightarrow>
                  map_option (Cons (char_of_byte (push_bit 4 hi OR lo)))
                    (decode_uri_component rest)
              | _ \<Rightarrow> None)
         | _ \<Rightarrow> None)
      else map_option (Cons c) (decode_uri_component cs))"

section \<open>indexOf and replace\<close>

text \<open>\<^verbatim>\<open>s.indexOf(pat)\<close>: the first position where \<open>pat\<close> occurs.\<close>

fun index_of :: "string \<Rightarrow> string \<Rightarrow> nat option" where
  "index_of pat s =
     (if take (length pat) s = pat then Some 0
      else (case s of [] \<Rightarrow> None | c # s' \<Rightarrow> map_option Suc (index_of pat s')))"

declare index_of.simps [simp del]

text \<open>
  \<^verbatim>\<open>GetSubstitution\<close> for a string pattern (no capture groups): \<^verbatim>\<open>$$\<close>,
  \<^verbatim>\<open>$&\<close>, \<^verbatim>\<open>$`\<close> and \<^verbatim>\<open>$'\<close> are expanded; every other character, \<^verbatim>\<open>$n\<close>
  and \<^verbatim>\<open>$<\<close> included, stands for itself.
\<close>

fun get_substitution :: "string \<Rightarrow> string \<Rightarrow> string \<Rightarrow> string \<Rightarrow> string" where
  "get_substitution matched pre post [] = []"
| "get_substitution matched pre post [c] = [c]"
| "get_substitution matched pre post (c # d # r) =
     (if c = CHR ''$'' \<and> d = CHR ''$'' then CHR ''$'' # get_substitution matched pre post r
      else if c = CHR ''$'' \<and> d = CHR ''&'' then matched @ get_substitution matched pre post r
      else if c = CHR ''$'' \<and> d = CHR ''`'' then pre @ get_substitution matched pre post r
      else if c = CHR ''$'' \<and> d = CHR 0x27 then post @ get_substitution matched pre post r
      else c # get_substitution matched pre post (d # r))"

text \<open>\<^verbatim>\<open>s.replace(pat, rep)\<close> with a string \<open>pat\<close>: only the first occurrence is replaced.\<close>

definition js_replace :: "string \<Rightarrow> string \<Rightarrow> string \<Rightarrow> string" where
  "js_replace s pat rep =
     (case index_of pat s of
        None \<Rightarrow> s
      | Some i \<Rightarrow>
          (let pre = take i s; post = drop (i + length pat) s
           in pre @ get_substitution pat pre post rep @ post))"

section \<open>Nibbles\<close>

lemma unat_drop_bit_4_byte: "unat (drop_bit 4 (b::byte)) < 16"
proof -
  have "unat b < 256" using unsigned_less [of b] by simp
  then show ?thesis by (simp add: unat_drop_bit_eq drop_bit_eq_div unat_div)
qed

lemma unat_and_15_byte: "unat ((b::byte) AND 15) < 16"
proof -
  have "unat (b AND 15) \<le> unat (15::byte)"
    by (rule word_and_le1 [THEN word_le_nat_alt [THEN iffD1]])
  then show ?thesis by simp
qed

lemma and_15_take_bit: "(b::byte) AND 15 = take_bit 4 b"
  by (simp add: take_bit_eq_mask mask_eq_exp_minus_1)

lemma nibbles_recombine: "push_bit 4 (drop_bit 4 b) OR (b AND 15) = (b::byte)"
proof -
  have "push_bit 4 (drop_bit 4 b) OR take_bit 4 b = b"
    by (rule bit_word_eqI) (auto simp: bit_simps)
  then show ?thesis by (simp add: and_15_take_bit)
qed

lemma hex_value_hex_upper: "unat d < 16 \<Longrightarrow> hex_value (hex_upper d) = Some d"
proof -
  assume lt: "unat d < 16"
  have all: "\<forall>i \<in> set [0..<16]. hex_value (''0123456789ABCDEF'' ! i) = Some (of_nat i)"
    by (simp add: hex_value_def upt_rec)
  from lt have "hex_value (''0123456789ABCDEF'' ! unat d) = Some (of_nat (unat d))"
    using all by simp
  then show ?thesis by (simp add: hex_upper_def)
qed

lemma hex_upper_not_dollar: "unat d < 16 \<Longrightarrow> hex_upper d \<noteq> CHR ''$''"
proof -
  assume lt: "unat d < 16"
  have "\<forall>i \<in> set [0..<16]. ''0123456789ABCDEF'' ! i \<noteq> CHR ''$''"
    by (simp add: upt_rec)
  with lt show ?thesis by (simp add: hex_upper_def)
qed

section \<open>Encoding loses nothing and yields no replacement pattern\<close>

lemma uri_unreserved_not_percent: "uri_unreserved c \<Longrightarrow> c \<noteq> CHR ''%''"
  by (auto simp: uri_unreserved_def)

lemma uri_unreserved_not_dollar: "uri_unreserved c \<Longrightarrow> c \<noteq> CHR ''$''"
  by (auto simp: uri_unreserved_def)

lemma decode_percent_byte:
  "decode_uri_component (percent_byte (byte_of c) @ rest) =
   map_option (Cons c) (decode_uri_component rest)"
proof -
  let ?b = "byte_of c"
  have hi: "hex_value (hex_upper (drop_bit 4 ?b)) = Some (drop_bit 4 ?b)"
    by (rule hex_value_hex_upper [OF unat_drop_bit_4_byte])
  have lo: "hex_value (hex_upper (?b AND 15)) = Some (?b AND 15)"
    by (rule hex_value_hex_upper [OF unat_and_15_byte])
  show ?thesis
    by (simp add: percent_byte_def hi lo nibbles_recombine)
qed

text \<open>
  Percent-encoding as \<^verbatim>\<open>encodeURIComponent\<close> does loses nothing: decoding the
  result gives the string back.
\<close>

lemma decode_encode_uri_component:
  "decode_uri_component (encode_uri_component s) = Some s"
proof (induction s)
  case Nil
  then show ?case by simp
next
  case (Cons c cs)
  show ?case
  proof (cases "uri_unreserved c")
    case True
    with Cons.IH show ?thesis by (simp add: uri_unreserved_not_percent)
  next
    case False
    with Cons.IH show ?thesis by (simp add: decode_percent_byte)
  qed
qed

lemma dollar_not_in_encode: "CHR ''$'' \<notin> set (encode_uri_component s)"
proof (induction s)
  case Nil
  then show ?case by simp
next
  case (Cons c cs)
  have "CHR ''$'' \<notin> set (percent_byte (byte_of c))"
    using hex_upper_not_dollar [OF unat_drop_bit_4_byte [of "byte_of c"]]
      hex_upper_not_dollar [OF unat_and_15_byte [of "byte_of c"]]
    by (auto simp: percent_byte_def)
  with Cons.IH show ?case using uri_unreserved_not_dollar [of c] by auto
qed

section \<open>indexOf\<close>

lemma index_of_Some:
  "index_of pat s = Some i \<Longrightarrow>
   take (length pat) (drop i s) = pat \<and> (\<forall>j<i. take (length pat) (drop j s) \<noteq> pat)"
proof (induction pat s arbitrary: i rule: index_of.induct)
  case (1 pat s)
  show ?case
  proof (cases "take (length pat) s = pat")
    case True
    with "1.prems" show ?thesis by (simp add: index_of.simps [of pat s])
  next
    case False
    show ?thesis
    proof (cases s)
      case Nil
      with False "1.prems" show ?thesis by (simp add: index_of.simps [of pat "[]"])
    next
      case (Cons c s')
      with False "1.prems" obtain i' where rec: "index_of pat s' = Some i'" and i: "i = Suc i'"
        by (auto simp: index_of.simps [of pat "c # s'"])
      from "1.IH" [OF False Cons rec]
      have IH: "take (length pat) (drop i' s') = pat \<and>
                (\<forall>j<i'. take (length pat) (drop j s') \<noteq> pat)" .
      show ?thesis
      proof (intro conjI allI impI)
        show "take (length pat) (drop i s) = pat"
          using IH Cons i by simp
      next
        fix j assume "j < i"
        then show "take (length pat) (drop j s) \<noteq> pat"
          using IH False Cons i by (cases j) auto
      qed
    qed
  qed
qed

lemma index_of_first:
  "(\<forall>j<length p. take (length pat) (drop j (p @ pat @ q)) \<noteq> pat) \<Longrightarrow>
   index_of pat (p @ pat @ q) = Some (length p)"
proof (induction p)
  case Nil
  then show ?case by (simp add: index_of.simps [of pat "pat @ q"])
next
  case (Cons c p)
  have here: "take (length pat) (c # (p @ pat @ q)) \<noteq> pat"
    using Cons.prems [rule_format, of 0] by simp
  have "\<forall>j<length p. take (length pat) (drop j (p @ pat @ q)) \<noteq> pat"
  proof (intro allI impI)
    fix j assume "j < length p"
    then show "take (length pat) (drop j (p @ pat @ q)) \<noteq> pat"
      using Cons.prems [rule_format, of "Suc j"] by simp
  qed
  with Cons.IH have "index_of pat (p @ pat @ q) = Some (length p)" by blast
  with here show ?case by (simp add: index_of.simps [of pat "c # (p @ pat @ q)"])
qed

lemma index_of_first_hd:
  assumes "pat \<noteq> []" and "hd pat \<notin> set p"
  shows "index_of pat (p @ pat @ q) = Some (length p)"
proof (rule index_of_first, intro allI impI)
  fix j assume j: "j < length p"
  show "take (length pat) (drop j (p @ pat @ q)) \<noteq> pat"
  proof
    assume eq: "take (length pat) (drop j (p @ pat @ q)) = pat"
    have dj: "drop j (p @ pat @ q) = p ! j # drop (Suc j) (p @ pat @ q)"
      using j by (simp add: Cons_nth_drop_Suc [symmetric] nth_append)
    from eq have "take (length pat) (p ! j # drop (Suc j) (p @ pat @ q)) = pat"
      by (simp only: dj)
    with assms(1) have "hd pat = p ! j" by (cases pat) auto
    with assms(2) j show False by auto
  qed
qed

section \<open>replace\<close>

lemma get_substitution_plain:
  "CHR ''$'' \<notin> set r \<Longrightarrow> get_substitution m pre post r = r"
  by (induction m pre post r rule: get_substitution.induct) auto

lemma js_replace_absent: "index_of pat s = None \<Longrightarrow> js_replace s pat r = s"
  by (simp add: js_replace_def)

lemma js_replace_at:
  assumes "index_of pat (p @ pat @ q) = Some (length p)" and "CHR ''$'' \<notin> set r"
  shows "js_replace (p @ pat @ q) pat r = p @ r @ q"
  using assms by (simp add: js_replace_def get_substitution_plain)

lemma js_replace_encoded:
  "index_of pat (p @ pat @ q) = Some (length p) \<Longrightarrow>
   js_replace (p @ pat @ q) pat (encode_uri_component v) = p @ encode_uri_component v @ q"
  by (rule js_replace_at) (simp_all add: dollar_not_in_encode)

lemmas string_eval [js_eval] =
  uri_unreserved_def hex_upper_def percent_byte_def index_of.simps js_replace_def

end
