(* ===== verification/Version.thy ===== *)
theory Version
  imports JsValue "HOL-Library.Char_ord" "HOL-Library.List_Lexorder" "HOL-Library.Product_Lexorder"
begin

text \<open>
  The version comparator the script imports as \<^verbatim>\<open>compver\<close> (package
  \<^verbatim>\<open>mozilla-version-comparator\<close>, \<^verbatim>\<open>src/updater.js\<close> lines 17 and 117). Its code is
  not part of the repository; it is modelled from the specification (section 4.1): a
  version string is split into alternating runs of digits and of non-digits,
  corresponding runs are compared (digit runs as numbers, other runs lexically), a
  missing trailing run is lower, and runs of different kinds fall back to a lexical
  comparison of the remainders. The result is \<open>-1\<close>, \<open>0\<close> or \<open>1\<close>. A call on a value
  that is not a string is modelled as a thrown \<^verbatim>\<open>TypeError\<close>.
\<close>

section \<open>Runs\<close>

definition is_digit :: "char \<Rightarrow> bool" where
  "is_digit c = (let n = (of_char c :: nat) in 48 \<le> n \<and> n \<le> 57)"

datatype vrun = Digits string | Other string

fun run_text :: "vrun \<Rightarrow> string" where
  "run_text (Digits d) = d"
| "run_text (Other s) = s"

text \<open>Maximal runs, built from the right.\<close>

fun split_runs :: "string \<Rightarrow> vrun list" where
  "split_runs [] = []"
| "split_runs (c # cs) =
     (case split_runs cs of
        [] \<Rightarrow> [if is_digit c then Digits [c] else Other [c]]
      | Digits d # rs \<Rightarrow>
          (if is_digit c then Digits (c # d) # rs else Other [c] # Digits d # rs)
      | Other s # rs \<Rightarrow>
          (if is_digit c then Digits [c] # Other s # rs else Other (c # s) # rs))"

definition digits_value :: "string \<Rightarrow> nat" where
  "digits_value d = foldl (\<lambda>n c. 10 * n + (of_char c - 48)) 0 d"

section \<open>Comparisons\<close>

definition nat_compare :: "nat \<Rightarrow> nat \<Rightarrow> int" where
  "nat_compare a b = (if a < b then -1 else if b < a then 1 else 0)"

fun lex_compare :: "string \<Rightarrow> string \<Rightarrow> int" where
  "lex_compare [] [] = 0"
| "lex_compare [] (b # bs) = -1"
| "lex_compare (a # as) [] = 1"
| "lex_compare (a # as) (b # bs) =
     (let c = nat_compare (of_char a) (of_char b) in if c \<noteq> 0 then c else lex_compare as bs)"

fun compare_runs :: "vrun list \<Rightarrow> vrun list \<Rightarrow> int" where
  "compare_runs [] [] = 0"
| "compare_runs [] (r # rs) = -1"
| "compare_runs (r # rs) [] = 1"
| "compare_runs (Digits a # xs) (Digits b # ys) =
     (let c = nat_compare (digits_value a) (digits_value b)
      in if c \<noteq> 0 then c else compare_runs xs ys)"
| "compare_runs (Other a # xs) (Other b # ys) =
     (let c = lex_compare a b in if c \<noteq> 0 then c else compare_runs xs ys)"
| "compare_runs xs ys =
     lex_compare (concat (map run_text xs)) (concat (map run_text ys))"

definition compver :: "string \<Rightarrow> string \<Rightarrow> int" where
  "compver a b = compare_runs (split_runs a) (split_runs b)"

text \<open>The call \<^verbatim>\<open>compver(entry.version, lastVersion.version)\<close> on JavaScript values.\<close>

fun js_compver :: "jsval \<Rightarrow> jsval \<Rightarrow> js_exc + int" where
  "js_compver (Some (JStr a)) (Some (JStr b)) = Inr (compver a b)"
| "js_compver a b = Inl TypeError"

section \<open>Splitting loses nothing\<close>

lemma split_runs_text: "concat (map run_text (split_runs s)) = s"
  by (induction s) (auto split: list.splits vrun.splits)

section \<open>The comparisons are antisymmetric and reflexive\<close>

lemma nat_compare_antisym: "nat_compare a b = - nat_compare b a"
  by (simp add: nat_compare_def)

lemma nat_compare_refl [simp]: "nat_compare a a = 0"
  by (simp add: nat_compare_def)

lemma nat_compare_range: "nat_compare a b \<in> {-1, 0, 1}"
  by (simp add: nat_compare_def)

lemma lex_compare_antisym: "lex_compare a b = - lex_compare b a"
  by (induction a b rule: lex_compare.induct) (auto simp: Let_def nat_compare_def)

lemma lex_compare_refl [simp]: "lex_compare a a = 0"
  by (induction a) simp_all

lemma lex_compare_range: "lex_compare a b \<in> {-1, 0, 1}"
  by (induction a b rule: lex_compare.induct) (auto simp: Let_def nat_compare_def)

lemma compare_runs_antisym: "compare_runs xs ys = - compare_runs ys xs"
proof (induction xs ys rule: compare_runs.induct)
  case (5 a xs b ys)
  have "lex_compare b a = - lex_compare a b" by (rule lex_compare_antisym)
  with "5.IH" show ?case by (simp add: Let_def)
qed (auto simp: Let_def nat_compare_def intro: lex_compare_antisym)

lemma compare_runs_refl: "compare_runs xs xs = 0"
proof (induction xs)
  case Nil
  then show ?case by simp
next
  case (Cons r rs)
  then show ?case by (cases r) simp_all
qed

lemma compare_runs_range: "compare_runs xs ys \<in> {-1, 0, 1}"
proof (induction xs ys rule: compare_runs.induct)
  case (4 a xs b ys)
  then show ?case using nat_compare_range [of "digits_value a" "digits_value b"] by (auto simp: Let_def)
next
  case (5 a xs b ys)
  then show ?case using lex_compare_range [of a b] by (auto simp: Let_def)
qed (simp_all add: lex_compare_range [simplified])

section \<open>The order behind the comparator\<close>

text \<open>
  Every run of \<open>split_runs\<close> is non-empty and of one kind, so two runs of different
  kinds are told apart by their first characters, and the comparison of remainders
  that \<open>compare_runs\<close> falls back to agrees with comparing the runs' kinds.
\<close>

definition cmp :: "'a::linorder \<Rightarrow> 'a \<Rightarrow> int" where
  "cmp x y = (if x < y then -1 else if x = y then 0 else 1)"

definition run_class :: "string \<Rightarrow> nat" where
  "run_class s = (case s of c # _ \<Rightarrow> if of_char c < (48::nat) then 0 else 2 | [] \<Rightarrow> 0)"

fun run_key :: "vrun \<Rightarrow> nat \<times> nat \<times> string" where
  "run_key (Digits d) = (1, digits_value d, [])"
| "run_key (Other s) = (run_class s, 0, s)"

definition version_key :: "string \<Rightarrow> (nat \<times> nat \<times> string) list" where
  "version_key v = map run_key (split_runs v)"

fun wf_run :: "vrun \<Rightarrow> bool" where
  "wf_run (Digits d) = (d \<noteq> [] \<and> (\<forall>c \<in> set d. is_digit c))"
| "wf_run (Other s) = (s \<noteq> [] \<and> (\<forall>c \<in> set s. \<not> is_digit c))"

lemma split_runs_wf: "list_all wf_run (split_runs s)"
  by (induction s) (auto split: list.splits vrun.splits)

lemma cmp_Cons: "cmp (x # xs) (y # ys) = (if x = y then cmp xs ys else cmp x y)"
  by (auto simp: cmp_def Cons_less_Cons)

lemma cmp_Nil: "cmp [] (y # ys) = -1" "cmp (x # xs) [] = 1" "cmp [] [] = 0"
  by (simp_all add: cmp_def)

lemma char_less_of_char: "(c < d) = (of_char c < (of_char d :: nat))"
  by (simp add: less_char_def)

lemma nat_compare_cmp: "nat_compare a b = cmp a b"
  by (simp add: nat_compare_def cmp_def)

lemma lex_compare_cmp: "lex_compare a b = cmp a b"
proof (induction a b rule: lex_compare.induct)
  case (4 a as b bs)
  have "a = b \<longleftrightarrow> (of_char a :: nat) = of_char b" by (metis char_of_char)
  then show ?case using 4 by (auto simp: Let_def nat_compare_def cmp_Cons cmp_def char_less_of_char)
qed (simp_all add: cmp_def)

lemma cmp_antisym: "cmp x y = - cmp y x"
  by (auto simp: cmp_def)

lemma cmp_prod: "cmp (a, b) (c, d) = (if a = c then cmp b d else cmp a c)"
  by (auto simp: cmp_def less_prod_def)

lemma run_class_not_digits [simp]: "run_class s \<noteq> Suc 0" "Suc 0 \<noteq> run_class s"
  by (simp_all add: run_class_def split: list.splits)

lemma cmp_first_char:
  assumes "wf_run (Digits a)" "wf_run (Other b)"
  shows "cmp (a @ u) (b @ v) = cmp (run_key (Digits a)) (run_key (Other b))"
proof -
  obtain x a' y b' where a: "a = x # a'" and b: "b = y # b'" and x: "is_digit x" and y: "\<not> is_digit y"
    using assms by (cases a; cases b) auto
  have "x \<noteq> y" using x y by auto
  then have "cmp (a @ u) (b @ v) = cmp x y" by (simp add: a b cmp_Cons)
  also have "\<dots> = cmp (1::nat) (run_class b)"
    using x y by (auto simp: cmp_def char_less_of_char is_digit_def run_class_def b Let_def)
  finally show ?thesis by (simp add: cmp_prod)
qed

lemma cmp_other_class:
  assumes "wf_run (Other a)" "wf_run (Other b)"
  shows "cmp a b = cmp (run_key (Other a)) (run_key (Other b))"
proof -
  obtain x a' y b' where a: "a = x # a'" and b: "b = y # b'" and x: "\<not> is_digit x" and y: "\<not> is_digit y"
    using assms by (cases a; cases b) auto
  show ?thesis
  proof (cases "run_class a = run_class b")
    case True
    then show ?thesis by (simp add: cmp_prod)
  next
    case False
    then have "x \<noteq> y" by (auto simp: a b run_class_def)
    then have "cmp a b = cmp x y" by (simp add: a b cmp_Cons)
    also have "\<dots> = cmp (run_class a) (run_class b)"
      using x y False by (auto simp: cmp_def char_less_of_char is_digit_def run_class_def a b Let_def)
    finally show ?thesis using False by (simp add: cmp_prod)
  qed
qed

lemma lex_compare_mixed:
  assumes "wf_run (Digits a)" "wf_run (Other b)"
  shows "lex_compare (a @ u) (b @ v) = cmp (run_key (Digits a)) (run_key (Other b))"
    and "lex_compare (b @ v) (a @ u) = cmp (run_key (Other b)) (run_key (Digits a))"
  using cmp_first_char [OF assms, of u v] cmp_antisym [of "a @ u" "b @ v"]
    cmp_antisym [of "run_key (Digits a)" "run_key (Other b)"]
  by (simp_all add: lex_compare_cmp)

lemma compare_runs_cmp:
  "list_all wf_run xs \<Longrightarrow> list_all wf_run ys \<Longrightarrow>
   compare_runs xs ys = cmp (map run_key xs) (map run_key ys)"
proof (induction xs ys rule: compare_runs.induct)
  case (4 a xs b ys)
  then show ?case by (auto simp: Let_def nat_compare_cmp cmp_Cons cmp_prod cmp_def)
next
  case (5 a xs b ys)
  then show ?case
    using cmp_other_class [of a b] by (auto simp: Let_def lex_compare_cmp cmp_Cons cmp_def)
qed (auto simp: cmp_Nil lex_compare_mixed cmp_Cons cmp_prod)

lemma compver_cmp: "compver a b = cmp (version_key a) (version_key b)"
  by (simp add: compver_def version_key_def compare_runs_cmp split_runs_wf)

lemma compver_antisym: "compver a b = - compver b a"
  unfolding compver_cmp by (rule cmp_antisym)

lemma compver_refl [simp]: "compver a a = 0"
  by (simp add: compver_def compare_runs_refl)

lemma compver_le_trans: "compver a b \<le> 0 \<Longrightarrow> compver b c \<le> 0 \<Longrightarrow> compver a c \<le> 0"
  by (auto simp: compver_cmp cmp_def split: if_splits)

lemma compver_lt_le_trans: "compver a b < 0 \<Longrightarrow> compver b c \<le> 0 \<Longrightarrow> compver a c < 0"
  by (auto simp: compver_cmp cmp_def split: if_splits)

lemma compver_le_lt_trans: "compver a b \<le> 0 \<Longrightarrow> compver b c < 0 \<Longrightarrow> compver a c < 0"
  by (auto simp: compver_cmp cmp_def split: if_splits)

section \<open>Properties of the comparator\<close>

text \<open>
  C30. The comparator is the three-way comparison of a linear order: the
  lexicographic order on version keys, each run keyed by its kind (non-digits below
  \<open>0\<close>, digits, non-digits above \<open>9\<close>), then by numeric value or by text. Hence it is
  a total preorder: reflexive, antisymmetric in sign, and transitive, and the
  running maximum of the loop of lines 116--124 is well defined.
\<close>

theorem js_compver_key_order:
  "js_compver (Some (JStr a)) (Some (JStr b)) = Inr (cmp (version_key a) (version_key b))"
  by (simp add: compver_cmp)

lemmas version_eval [js_eval] = compver_def is_digit_def digits_value_def nat_compare_def

end
