(* ===== verification/Merge.thy ===== *)
theory Merge
  imports JsString Version
begin

text \<open>
  The manifest merge engine: the body of \<^verbatim>\<open>HandleManifest\<close>
  (\<^verbatim>\<open>src/updater.js\<close> lines 101--167) and the \<^verbatim>\<open>then\<close> callback that runs once
  the archive's digest is known (lines 139--156). The first part runs synchronously
  when the add-on's \<^verbatim>\<open>manifest.json\<close> has been read: it finds the add-on's record
  in the update manifest, filters the existing entries and tracks the latest one, and
  computes the update link; its result is the updated document and a \<open>pending\<close>
  entry. The second part builds the new entry and appends it to the record.
\<close>

section \<open>Configuration\<close>

text \<open>
  The values the handler reads from the command line (lines 48, 58, 59, 125),
  after the defaulting of lines 58 and 59.
\<close>

record config =
  file_path :: string
  update_in :: "string option"
  update_out :: "string option"
  update_link :: "string option"

section \<open>The add-on id\<close>

text \<open>
  Lines 106--108: \<^verbatim>\<open>manifest && manifest.applications &&
  manifest.applications.gecko && manifest.applications.gecko.id\<close>; each operand is
  read only when the one before is truthy, so no read can throw.
\<close>

definition addon_id_of :: "jsval \<Rightarrow> jsval" where
  "addon_id_of m =
     (if \<not> js_truthy m then m
      else let a = prop_of m ''applications'' in
        if \<not> js_truthy a then a
        else let g = prop_of a ''gecko'' in
          if \<not> js_truthy g then g
          else prop_of g ''id'')"

section \<open>The add-on's record\<close>

text \<open>
  How the record \<^verbatim>\<open>update.addons[addonId]\<close> is stored. \<open>Visible\<close>: it is a
  property of the \<^verbatim>\<open>addons\<close> object and is written out. \<open>Hidden\<close>: it is a
  named property of an array (\<^verbatim>\<open>addons\<close> or the record is an array), which
  \<^verbatim>\<open>JSON.stringify\<close> does not write. \<open>Broken\<close>: the record is a truthy primitive,
  whose \<^verbatim>\<open>updates\<close> cannot be stored, so that the later \<^verbatim>\<open>push\<close> throws.
\<close>

datatype mode = Visible | Hidden | Broken

definition set_record :: "json \<Rightarrow> string \<Rightarrow> json \<Rightarrow> json" where
  "set_record doc key r =
     (case own_prop doc ''addons'' of
        None \<Rightarrow> doc
      | Some addons \<Rightarrow> json_put doc ''addons'' (json_put addons key r))"

text \<open>
  Lines 113--114: \<^verbatim>\<open>if(!update.addons[addonId]) update.addons[addonId] = {};\<close>
  followed by the read \<^verbatim>\<open>update.addons[addonId]\<close> of line 116. The result is the
  document, the record and its mode. Reading \<^verbatim>\<open>addons\<close> of a \<^verbatim>\<open>null\<close> document
  or a property of a missing \<^verbatim>\<open>addons\<close> throws; when \<^verbatim>\<open>addons\<close> is a
  primitive the assignment is ignored and line 116 reads \<^verbatim>\<open>updates\<close> of
  \<^verbatim>\<open>undefined\<close>, which throws.
\<close>

definition ensure_addon :: "json \<Rightarrow> string \<Rightarrow> js_exc + (json \<times> jsval \<times> mode)" where
  "ensure_addon doc key =
     (case js_get (Some doc) ''addons'' of
        Inl e \<Rightarrow> Inl e
      | Inr addons \<Rightarrow>
          (case js_get addons key of
             Inl e \<Rightarrow> Inl e
           | Inr r \<Rightarrow>
               (case addons of
                  Some (JObj kvs) \<Rightarrow>
                    (if js_truthy r then Inr (doc, r, Visible)
                     else Inr (set_record doc key (JObj []), Some (JObj []), Visible))
                | Some (JArr xs) \<Rightarrow> Inr (doc, Some (JObj []), Hidden)
                | _ \<Rightarrow> Inl TypeError)))"

text \<open>
  Line 116, \<^verbatim>\<open>(update.addons[addonId].updates || [])\<close> and the call of
  \<^verbatim>\<open>filter\<close>, which only an array has.
\<close>

definition updates_of :: "jsval \<Rightarrow> js_exc + json list" where
  "updates_of r =
     (case js_get r ''updates'' of
        Inl e \<Rightarrow> Inl e
      | Inr u \<Rightarrow>
          (if \<not> js_truthy u then Inr []
           else (case u of Some (JArr xs) \<Rightarrow> Inr xs | _ \<Rightarrow> Inl TypeError)))"

section \<open>Filtering the entries and tracking the latest\<close>

text \<open>
  Line 117--118: \<^verbatim>\<open>if(lastVersion===null || compver(entry.version,
  lastVersion.version)>0) lastVersion = entry;\<close>. \<open>None\<close> is the initial
  \<^verbatim>\<open>null\<close>.
\<close>

definition track_last :: "jsval \<Rightarrow> json \<Rightarrow> js_exc + jsval" where
  "track_last lastv e =
     (if lastv = None \<or> lastv = Some JNull then Inr (Some e)
      else
        (case js_get (Some e) ''version'' of
           Inl x \<Rightarrow> Inl x
         | Inr ev \<Rightarrow>
             (case js_get lastv ''version'' of
                Inl x \<Rightarrow> Inl x
              | Inr lv \<Rightarrow>
                  (case js_compver ev lv of
                     Inl x \<Rightarrow> Inl x
                   | Inr c \<Rightarrow> Inr (if 0 < c then Some e else lastv)))))"

text \<open>
  Lines 116--124: the \<^verbatim>\<open>filter\<close> callback, applied to each entry in order. It first
  updates \<^verbatim>\<open>lastVersion\<close>, then drops the entry whose version is strictly equal to
  the new one, with a warning. The result is the kept entries, the final
  \<^verbatim>\<open>lastVersion\<close> and the warnings; the first exception ends the loop.
\<close>

fun scan_updates :: "jsval \<Rightarrow> jsval \<Rightarrow> json list \<Rightarrow> js_exc + (json list \<times> jsval \<times> log list)" where
  "scan_updates mv lastv [] = Inr ([], lastv, [])"
| "scan_updates mv lastv (e # es) =
     (case track_last lastv e of
        Inl x \<Rightarrow> Inl x
      | Inr lastv' \<Rightarrow>
          (case js_get (Some e) ''version'' of
             Inl x \<Rightarrow> Inl x
           | Inr ev \<Rightarrow>
               (case scan_updates mv lastv' es of
                  Inl x \<Rightarrow> Inl x
                | Inr (kept, lv, logs) \<Rightarrow>
                    (if js_strict_eq ev mv then Inr (kept, lv, Warn_DuplicateVersion (js_to_string mv) # logs)
                     else Inr (e # kept, lv, logs)))))"

text \<open>The assignment \<^verbatim>\<open>update.addons[addonId].updates = ...\<close> of line 116.\<close>

definition store_updates :: "json \<Rightarrow> string \<Rightarrow> jsval \<Rightarrow> mode \<Rightarrow> json list \<Rightarrow> json \<times> mode" where
  "store_updates doc key r m kept =
     (if m \<noteq> Visible then (doc, m)
      else
        (case r of
           Some (JObj rkvs) \<Rightarrow> (set_record doc key (JObj (alist_put rkvs ''updates'' (JArr kept))), Visible)
         | Some (JArr xs) \<Rightarrow> (doc, Hidden)
         | _ \<Rightarrow> (doc, Broken)))"

section \<open>The update link\<close>

text \<open>
  Lines 127--135: no \<^verbatim>\<open>--update-link\<close>; the link of \<^verbatim>\<open>lastVersion\<close> is reused with
  the first occurrence of its encoded version replaced by the encoded new version. A
  truthy link that is not a string has no \<^verbatim>\<open>replace\<close> method and throws.
\<close>

definition reuse_url :: "jsval \<Rightarrow> jsval \<Rightarrow> failure + (string \<times> log list)" where
  "reuse_url lastv mv =
     (if js_truthy lastv \<and> js_truthy (prop_of lastv ''update_link'') then
        (case prop_of lastv ''update_link'' of
           Some (JStr l) \<Rightarrow>
             (let u = js_replace l (encode_uri_component (js_to_string (prop_of lastv ''version'')))
                        (encode_uri_component (js_to_string mv))
              in Inr (u, [Info_ReusingUrl l u]))
         | _ \<Rightarrow> Inl Err_ManifestParse)
      else Inl Err_NoUpdateUrl)"

text \<open>Lines 125--137: an explicit \<^verbatim>\<open>--update-link\<close> has its first \<^verbatim>\<open>@version@\<close> replaced.\<close>

definition resolve_url :: "string option \<Rightarrow> jsval \<Rightarrow> jsval \<Rightarrow> failure + (string \<times> log list)" where
  "resolve_url link lastv mv =
     (if str_truthy link
      then Inr (js_replace (the link) ''@version@'' (encode_uri_component (js_to_string mv)), [])
      else reuse_url lastv mv)"

section \<open>HandleManifest\<close>

text \<open>What the handler leaves for the \<^verbatim>\<open>then\<close> callback of the digest.\<close>

record pending =
  pend_key :: string
  pend_mode :: mode
  pend_last :: jsval
  pend_version :: jsval
  pend_url :: string

definition lift_exc :: "js_exc + 'a \<Rightarrow> failure + 'a" where
  "lift_exc r = (case r of Inl e \<Rightarrow> Inl Err_ManifestParse | Inr x \<Rightarrow> Inr x)"

text \<open>
  Lines 101--137 and 161--166, for the result of \<^verbatim>\<open>JSON.parse\<close> on the
  manifest's text (\<open>None\<close>: the parse threw). Every exception of the \<^verbatim>\<open>try\<close>
  block ends the run with "Could not parse manifest".
\<close>

definition handle_manifest ::
  "config \<Rightarrow> json \<Rightarrow> json option \<Rightarrow> failure + (json \<times> pending option \<times> log list)" where
  "handle_manifest cfg doc parsed =
     (case parsed of
        None \<Rightarrow> Inl Err_ManifestParse
      | Some m \<Rightarrow>
          (if \<not> str_truthy (update_out cfg) then Inr (doc, None, [Info_NoOutputPath])
           else
             (let addon_id = addon_id_of (Some m) in
              if \<not> js_truthy addon_id then Inl Err_NoAddonId
              else
                (let key = js_to_string addon_id; mv = prop_of (Some m) ''version'' in
                 case lift_exc (ensure_addon doc key) of
                   Inl f \<Rightarrow> Inl f
                 | Inr (doc1, r, md) \<Rightarrow>
                     (case lift_exc (updates_of r) of
                        Inl f \<Rightarrow> Inl f
                      | Inr xs \<Rightarrow>
                          (case lift_exc (scan_updates mv None xs) of
                             Inl f \<Rightarrow> Inl f
                           | Inr (kept, lastv, logs) \<Rightarrow>
                               (let (doc2, md2) = store_updates doc1 key r md kept in
                                case resolve_url (update_link cfg) lastv mv of
                                  Inl f \<Rightarrow> Inl f
                                | Inr (url, logs2) \<Rightarrow>
                                    Inr (doc2,
                                         Some \<lparr>pend_key = key, pend_mode = md2, pend_last = lastv,
                                               pend_version = mv, pend_url = url\<rparr>,
                                         logs @ logs2))))))))"

section \<open>The new entry\<close>

text \<open>
  Lines 140--144: \<^verbatim>\<open>Object.assign({}, lastVersion, {version, update_hash,
  update_link})\<close>.
\<close>

definition new_entry :: "jsval \<Rightarrow> jsval \<Rightarrow> string \<Rightarrow> string \<Rightarrow> json" where
  "new_entry lastv mv hash url =
     drop_undefined
       (object_assign []
          [own_enum_props lastv,
           [(''version'', mv), (''update_hash'', Some (JStr (''sha256:'' @ hash))),
            (''update_link'', Some (JStr url))]])"

text \<open>
  Line 145: \<^verbatim>\<open>update.addons[addonId].updates.push(entry)\<close>, reading the record
  again; an exception here is caught by the \<^verbatim>\<open>catch\<close> of line 157.
\<close>

definition push_entry :: "json \<Rightarrow> pending \<Rightarrow> string \<Rightarrow> failure + json" where
  "push_entry doc p hash =
     (let entry = new_entry (pend_last p) (pend_version p) hash (pend_url p) in
      case pend_mode p of
        Hidden \<Rightarrow> Inr doc
      | Broken \<Rightarrow> Inl Err_Hash
      | Visible \<Rightarrow>
          (case js_get (Some doc) ''addons'' of
             Inl e \<Rightarrow> Inl Err_Hash
           | Inr addons \<Rightarrow>
               (case js_get addons (pend_key p) of
                  Inl e \<Rightarrow> Inl Err_Hash
                | Inr r \<Rightarrow>
                    (case (r, js_get r ''updates'') of
                       (Some rv, Inr (Some (JArr xs))) \<Rightarrow>
                         Inr (set_record doc (pend_key p) (json_put rv ''updates'' (JArr (xs @ [entry]))))
                     | _ \<Rightarrow> Inl Err_Hash))))"

section \<open>One merge\<close>

text \<open>
  The handler followed by the digest's callback, for a digest \<open>hash\<close> that was
  computed: the whole of the merge for one \<^verbatim>\<open>manifest.json\<close>, as the script runs
  it when the archive holds one. The result is the document that line 148 writes
  (or, with no output path, the unchanged document) and the messages.
\<close>

definition merge_version ::
  "config \<Rightarrow> json \<Rightarrow> json option \<Rightarrow> string \<Rightarrow> failure + (json \<times> log list)" where
  "merge_version cfg doc parsed hash =
     (case handle_manifest cfg doc parsed of
        Inl f \<Rightarrow> Inl f
      | Inr (doc1, None, logs) \<Rightarrow> Inr (doc1, logs)
      | Inr (doc1, Some p, logs) \<Rightarrow>
          (case push_entry doc1 p hash of
             Inl f \<Rightarrow> Inl f
           | Inr doc2 \<Rightarrow> Inr (doc2, logs)))"

section \<open>The loop as a filter and a fold\<close>

text \<open>
  An entry as the merge expects it: an object with unique keys whose
  \<^verbatim>\<open>version\<close> is a string. On such entries no read and no comparison of the loop
  throws.
\<close>

definition wf_entry :: "json \<Rightarrow> bool" where
  "wf_entry e =
     (case e of
        JObj kvs \<Rightarrow>
          distinct (map fst kvs) \<and>
          (case map_of kvs ''version'' of Some (JStr v) \<Rightarrow> True | _ \<Rightarrow> False)
      | _ \<Rightarrow> False)"

definition version_str :: "json \<Rightarrow> string" where
  "version_str e = (case own_prop e ''version'' of Some (JStr v) \<Rightarrow> v | _ \<Rightarrow> [])"

text \<open>
  The reference definitions of section 9 of the specification: the running maximum,
  replaced only by a strictly greater version (so the earliest of equal maxima stays),
  and the entries whose version differs from the new one.
\<close>

fun latest_from :: "json \<Rightarrow> json list \<Rightarrow> json" where
  "latest_from best [] = best"
| "latest_from best (e # es) =
     latest_from (if 0 < compver (version_str e) (version_str best) then e else best) es"

definition latest :: "json list \<Rightarrow> jsval" where
  "latest xs = (case xs of [] \<Rightarrow> None | x # xs' \<Rightarrow> Some (latest_from x xs'))"

definition same_version :: "jsval \<Rightarrow> json \<Rightarrow> bool" where
  "same_version mv e = js_strict_eq (own_prop e ''version'') mv"

definition dup_warnings :: "jsval \<Rightarrow> json list \<Rightarrow> log list" where
  "dup_warnings mv xs = replicate (length (filter (same_version mv) xs)) (Warn_DuplicateVersion (js_to_string mv))"

lemma wf_entry_obj:
  assumes "wf_entry e"
  shows "\<exists>kvs v. e = JObj kvs \<and> distinct (map fst kvs) \<and> map_of kvs ''version'' = Some (JStr v)"
proof -
  from assms obtain kvs where e: "e = JObj kvs" and d: "distinct (map fst kvs)"
    and c: "case map_of kvs ''version'' of Some (JStr v) \<Rightarrow> True | _ \<Rightarrow> False"
    by (auto simp: wf_entry_def split: json.splits)
  from c obtain v where "map_of kvs ''version'' = Some (JStr v)"
    by (auto split: option.splits json.splits)
  with e d show ?thesis by blast
qed

lemma wf_entry_not_null: "wf_entry e \<Longrightarrow> e \<noteq> JNull"
  by (auto simp: wf_entry_def)

lemma wf_entry_version:
  "wf_entry e \<Longrightarrow> own_prop e ''version'' = Some (JStr (version_str e))"
  by (auto simp: version_str_def dest!: wf_entry_obj)

lemma wf_entry_get_version:
  "wf_entry e \<Longrightarrow> js_get (Some e) ''version'' = Inr (Some (JStr (version_str e)))"
  by (auto simp: version_str_def dest!: wf_entry_obj)

lemma track_last_wf:
  assumes "wf_entry e" and "lastv = None \<or> (\<exists>b. lastv = Some b \<and> wf_entry b)"
  shows "track_last lastv e =
           Inr (case lastv of None \<Rightarrow> Some e
                | Some b \<Rightarrow> Some (if 0 < compver (version_str e) (version_str b) then e else b))"
proof (cases lastv)
  case None
  then show ?thesis by (simp add: track_last_def)
next
  case (Some b)
  with assms(2) have wb: "wf_entry b" by simp
  with Some show ?thesis
    using wf_entry_get_version [OF assms(1)] wf_entry_get_version [OF wb] wf_entry_not_null [OF wb]
    by (simp add: track_last_def)
qed

lemma scan_updates_wf_from:
  assumes "list_all wf_entry xs" and "lastv = None \<or> (\<exists>b. lastv = Some b \<and> wf_entry b)"
  shows "scan_updates mv lastv xs =
           Inr (filter (\<lambda>e. \<not> same_version mv e) xs,
                (case lastv of None \<Rightarrow> latest xs | Some b \<Rightarrow> Some (latest_from b xs)),
                dup_warnings mv xs)"
  using assms
proof (induction xs arbitrary: lastv)
  case Nil
  then show ?case by (auto simp: latest_def dup_warnings_def)
next
  case (Cons e es)
  from Cons.prems have we: "wf_entry e" and wes: "list_all wf_entry es" by simp_all
  define lastv' where "lastv' = (case lastv of None \<Rightarrow> Some e
      | Some b \<Rightarrow> Some (if 0 < compver (version_str e) (version_str b) then e else b))"
  have tl: "track_last lastv e = Inr lastv'"
    unfolding lastv'_def by (rule track_last_wf [OF we Cons.prems(2)])
  have inv': "lastv' = None \<or> (\<exists>b. lastv' = Some b \<and> wf_entry b)"
    using Cons.prems(2) we by (cases lastv) (auto simp: lastv'_def)
  have rec: "scan_updates mv lastv' es =
      Inr (filter (\<lambda>e. \<not> same_version mv e) es,
           (case lastv' of None \<Rightarrow> latest es | Some b \<Rightarrow> Some (latest_from b es)),
           dup_warnings mv es)"
    by (rule Cons.IH [OF wes inv'])
  have lat: "(case lastv' of None \<Rightarrow> latest es | Some b \<Rightarrow> Some (latest_from b es)) =
             (case lastv of None \<Rightarrow> latest (e # es) | Some b \<Rightarrow> Some (latest_from b (e # es)))"
    by (cases lastv) (simp_all add: lastv'_def latest_def)
  have sv: "same_version mv e = js_strict_eq (Some (JStr (version_str e))) mv"
    by (simp add: same_version_def wf_entry_version [OF we])
  show ?case
    using tl rec lat wf_entry_get_version [OF we] sv
    by (simp add: dup_warnings_def)
qed

text \<open>
  The loop of lines 116--124 computes, on well-formed entries, the filtered entries,
  the running maximum of the reference definition and one warning per dropped entry.
\<close>

lemma scan_updates_wf:
  "list_all wf_entry xs \<Longrightarrow>
   scan_updates mv None xs = Inr (filter (\<lambda>e. \<not> same_version mv e) xs, latest xs, dup_warnings mv xs)"
  using scan_updates_wf_from [of xs None mv] by simp

lemma latest_from_in: "latest_from b xs \<in> insert b (set xs)"
proof (induction xs arbitrary: b)
  case Nil
  then show ?case by simp
next
  case (Cons a xs)
  let ?b' = "if 0 < compver (version_str a) (version_str b) then a else b"
  have "latest_from ?b' xs \<in> insert ?b' (set xs)" by (rule Cons.IH)
  then show ?case by auto
qed

lemma latest_wf:
  assumes "list_all wf_entry xs" and "latest xs = Some b"
  shows "wf_entry b"
proof (cases xs)
  case Nil
  with assms(2) show ?thesis by (simp add: latest_def)
next
  case (Cons x xs')
  with assms(2) have "b \<in> set xs" using latest_from_in [of x xs'] by (auto simp: latest_def)
  with assms(1) show ?thesis by (simp add: list_all_iff)
qed

text \<open>
  With the comparator a total preorder (theory Version), the running maximum is a
  maximum, and every entry before its first occurrence is strictly lower.
\<close>

lemma latest_from_max:
  "e \<in> insert b (set xs) \<Longrightarrow> compver (version_str e) (version_str (latest_from b xs)) \<le> 0"
proof (induction xs arbitrary: b e)
  case Nil
  then show ?case by simp
next
  case (Cons a xs)
  let ?b' = "if 0 < compver (version_str a) (version_str b) then a else b"
  have ih: "\<And>e. e \<in> insert ?b' (set xs) \<Longrightarrow>
              compver (version_str e) (version_str (latest_from ?b' xs)) \<le> 0"
    by (rule Cons.IH)
  have ab: "compver (version_str a) (version_str ?b') \<le> 0" and bb: "compver (version_str b) (version_str ?b') \<le> 0"
    using compver_antisym [of "version_str a" "version_str b"] by auto
  from Cons.prems consider "e \<in> insert ?b' (set xs)" | "e = a" | "e = b" by auto
  then show ?case
  proof cases
    case 2
    then show ?thesis using compver_le_trans [OF ab ih [of ?b']] by simp
  next
    case 3
    then show ?thesis using compver_le_trans [OF bb ih [of ?b']] by simp
  qed (use ih in simp)
qed

lemma latest_from_earliest:
  "e \<in> set (takeWhile (\<lambda>e. e \<noteq> latest_from b xs) (b # xs)) \<Longrightarrow>
   compver (version_str e) (version_str (latest_from b xs)) < 0"
proof (induction xs arbitrary: b e)
  case Nil
  then show ?case by simp
next
  case (Cons a xs)
  let ?r = "latest_from b (a # xs)"
  show ?case
  proof (cases "0 < compver (version_str a) (version_str b)")
    case True
    then have r: "?r = latest_from a xs" by simp
    have "compver (version_str b) (version_str a) < 0"
      using True compver_antisym [of "version_str b" "version_str a"] by simp
    moreover have "compver (version_str a) (version_str ?r) \<le> 0"
      unfolding r by (rule latest_from_max) simp
    ultimately have b: "compver (version_str b) (version_str ?r) < 0" by (rule compver_lt_le_trans)
    from Cons.prems r b Cons.IH [of e a] show ?thesis by (auto split: if_splits)
  next
    case False
    then have r: "?r = latest_from b xs" by simp
    show ?thesis
    proof (cases "b = ?r")
      case True
      with Cons.prems show ?thesis by simp
    next
      case nb: False
      have b: "compver (version_str b) (version_str ?r) < 0"
        using Cons.IH [of b b] nb r by simp
      have "compver (version_str a) (version_str b) \<le> 0" using False by simp
      then have a: "compver (version_str a) (version_str ?r) < 0" using b by (rule compver_le_lt_trans)
      have "e \<in> set (takeWhile (\<lambda>e. e \<noteq> ?r) xs) \<Longrightarrow> compver (version_str e) (version_str ?r) < 0"
        using Cons.IH [of e b] nb r by simp
      with Cons.prems nb a b show ?thesis by (auto split: if_splits)
    qed
  qed
qed

section \<open>What one merge does\<close>

text \<open>The updates of the record of \<open>key\<close>, as a reader of the written document sees them.\<close>

definition record_updates :: "json \<Rightarrow> string \<Rightarrow> json list option" where
  "record_updates doc key =
     (case own_prop doc ''addons'' of
        Some a \<Rightarrow>
          (case own_prop a key of
             Some r \<Rightarrow> (case own_prop r ''updates'' of Some (JArr xs) \<Rightarrow> Some xs | _ \<Rightarrow> None)
           | None \<Rightarrow> None)
      | None \<Rightarrow> None)"

lemma own_prop_set_record:
  "own_prop doc ''addons'' = Some (JObj akvs) \<Longrightarrow>
   own_prop (set_record doc key r) ''addons'' = Some (JObj (alist_put akvs key r))"
  by (cases doc) (simp_all add: set_record_def)

lemma set_record_twice:
  "own_prop doc ''addons'' = Some (JObj akvs) \<Longrightarrow>
   set_record (set_record doc key r1) key r2 = set_record doc key r2"
  by (cases doc) (simp_all add: set_record_def)

lemma record_updates_set_record:
  "own_prop doc ''addons'' = Some (JObj akvs) \<Longrightarrow>
   record_updates (set_record doc key (JObj (alist_put rkvs ''updates'' (JArr ys)))) key = Some ys"
  by (simp add: record_updates_def own_prop_set_record)

lemma push_entry_visible:
  assumes "own_prop doc ''addons'' = Some (JObj akvs)"
  shows "push_entry (set_record doc key (JObj (alist_put rkvs ''updates'' (JArr ys))))
           \<lparr>pend_key = key, pend_mode = Visible, pend_last = lv, pend_version = mv, pend_url = url\<rparr> h =
         Inr (set_record doc key (JObj (alist_put rkvs ''updates'' (JArr (ys @ [new_entry lv mv h url])))))"
proof -
  have "set_record doc key (JObj (alist_put rkvs ''updates'' (JArr ys))) \<noteq> JNull"
    using own_prop_set_record [OF assms] by (metis own_prop_not_null)
  then show ?thesis
    using own_prop_set_record [OF assms] set_record_twice [OF assms]
    by (simp add: push_entry_def js_get_own)
qed

text \<open>The two cases of \<open>ensure_addon\<close> on an \<^verbatim>\<open>addons\<close> object: the record exists, or an empty one is made.\<close>

lemma ensure_addon_existing:
  assumes "own_prop doc ''addons'' = Some (JObj akvs)" and "map_of akvs key = Some (JObj rkvs)"
  shows "ensure_addon doc key = Inr (doc, Some (JObj rkvs), Visible)"
  using assms own_prop_not_null [OF assms(1)] by (simp add: ensure_addon_def js_get_own)

lemma ensure_addon_new:
  assumes "own_prop doc ''addons'' = Some (JObj akvs)" and "map_of akvs key = None"
  shows "ensure_addon doc key = Inr (set_record doc key (JObj []), Some (JObj []), Visible)"
  using assms own_prop_not_null [OF assms(1)] by (simp add: ensure_addon_def js_get_own)

text \<open>
  The handler alone on a visible record with well-formed entries: the record's
  \<^verbatim>\<open>updates\<close> become the entries of another version, and the digest's callback is
  left the key, the latest entry, the new version and the link.
\<close>

lemma handle_manifest_visible_eq:
  assumes out: "str_truthy (update_out cfg)"
    and id: "addon_id_of (Some m) = Some (JStr key)" "key \<noteq> []"
    and ens: "ensure_addon doc key = Inr (doc1, Some (JObj rkvs), Visible)"
    and ups: "updates_of (Some (JObj rkvs)) = Inr xs"
    and wf: "list_all wf_entry xs"
    and url: "resolve_url (update_link cfg) (latest xs) (prop_of (Some m) ''version'') = Inr (url, logs2)"
  shows "handle_manifest cfg doc (Some m) =
           Inr (set_record doc1 key
                  (JObj (alist_put rkvs ''updates''
                     (JArr (filter (\<lambda>e. \<not> same_version (prop_of (Some m) ''version'') e) xs)))),
                Some \<lparr>pend_key = key, pend_mode = Visible, pend_last = latest xs,
                      pend_version = prop_of (Some m) ''version'', pend_url = url\<rparr>,
                dup_warnings (prop_of (Some m) ''version'') xs @ logs2)"
  using out id ens ups url scan_updates_wf [OF wf, of "prop_of (Some m) ''version''"]
  by (simp add: handle_manifest_def lift_exc_def store_updates_def Let_def)

text \<open>With \<^verbatim>\<open>--update-link\<close> the link does not depend on the latest entry.\<close>

lemma resolve_url_template:
  "str_truthy link \<Longrightarrow> resolve_url link lv mv = resolve_url link None mv"
  by (simp add: resolve_url_def)

text \<open>
  The handler a second time, on the document the first call left: the record already
  holds only entries of other versions, so nothing changes, and a second callback with
  the same version is left in flight.
\<close>

lemma handle_manifest_again:
  assumes out: "str_truthy (update_out cfg)" and link: "str_truthy (update_link cfg)"
    and id: "addon_id_of (Some m) = Some (JStr key)" "key \<noteq> []"
    and doc1: "own_prop doc1 ''addons'' = Some (JObj akvs1)"
    and wf: "list_all wf_entry xs"
    and kept: "kept = filter (\<lambda>e. \<not> same_version (prop_of (Some m) ''version'') e) xs"
    and url: "resolve_url (update_link cfg) None (prop_of (Some m) ''version'') = Inr (url, logs2)"
  shows "handle_manifest cfg (set_record doc1 key (JObj (alist_put rkvs ''updates'' (JArr kept)))) (Some m) =
           Inr (set_record doc1 key (JObj (alist_put rkvs ''updates'' (JArr kept))),
                Some \<lparr>pend_key = key, pend_mode = Visible, pend_last = latest kept,
                      pend_version = prop_of (Some m) ''version'', pend_url = url\<rparr>, logs2)"
proof -
  let ?R = "JObj (alist_put rkvs ''updates'' (JArr kept))"
  let ?d = "set_record doc1 key ?R"
  have own: "own_prop ?d ''addons'' = Some (JObj (alist_put akvs1 key ?R))"
    by (rule own_prop_set_record [OF doc1])
  have ens: "ensure_addon ?d key = Inr (?d, Some ?R, Visible)"
    by (rule ensure_addon_existing [OF own]) simp
  have ups: "updates_of (Some ?R) = Inr kept" by (simp add: updates_of_def)
  have wk: "list_all wf_entry kept" using wf kept by (simp add: list_all_iff)
  have nodup: "dup_warnings (prop_of (Some m) ''version'') kept = []"
    using kept by (simp add: dup_warnings_def filter_empty_conv)
  have url': "resolve_url (update_link cfg) (latest kept) (prop_of (Some m) ''version'') = Inr (url, logs2)"
    by (rule trans [OF resolve_url_template [OF link] url])
  show ?thesis
    using handle_manifest_visible_eq [OF out id ens ups wk url'] nodup kept set_record_twice [OF doc1]
    by simp
qed

text \<open>
  The merge on an add-on that already has a record with an array of well-formed
  entries: the record's \<^verbatim>\<open>updates\<close> become the entries of another version,
  followed by the new entry, and nothing else of the document changes.
\<close>

lemma merge_version_existing_eq:
  assumes out: "str_truthy (update_out cfg)"
    and id: "addon_id_of (Some m) = Some (JStr key)" "key \<noteq> []"
    and doc: "own_prop doc ''addons'' = Some (JObj akvs)"
    and rec: "map_of akvs key = Some (JObj rkvs)"
    and upd: "map_of rkvs ''updates'' = Some (JArr xs)"
    and wf: "list_all wf_entry xs"
    and url: "resolve_url (update_link cfg) (latest xs) (prop_of (Some m) ''version'') = Inr (url, logs2)"
  shows "merge_version cfg doc (Some m) h =
           Inr (set_record doc key
                  (JObj (alist_put rkvs ''updates''
                     (JArr (filter (\<lambda>e. \<not> same_version (prop_of (Some m) ''version'') e) xs @
                            [new_entry (latest xs) (prop_of (Some m) ''version'') h url])))),
                dup_warnings (prop_of (Some m) ''version'') xs @ logs2)"
proof -
  let ?mv = "prop_of (Some m) ''version''"
  have ens: "ensure_addon doc key = Inr (doc, Some (JObj rkvs), Visible)"
    by (rule ensure_addon_existing [OF doc rec])
  have ups: "updates_of (Some (JObj rkvs)) = Inr xs"
    using upd by (simp add: updates_of_def)
  show ?thesis
    using out id ens ups url scan_updates_wf [OF wf, of ?mv]
      push_entry_visible [OF doc, of key rkvs]
    by (simp add: merge_version_def handle_manifest_def lift_exc_def store_updates_def Let_def)
qed

text \<open>The merge on an add-on with no record yet: a record holding the new entry alone.\<close>

lemma merge_version_new_eq:
  assumes out: "str_truthy (update_out cfg)"
    and id: "addon_id_of (Some m) = Some (JStr key)" "key \<noteq> []"
    and doc: "own_prop doc ''addons'' = Some (JObj akvs)"
    and rec: "map_of akvs key = None"
    and url: "resolve_url (update_link cfg) None (prop_of (Some m) ''version'') = Inr (url, logs2)"
  shows "merge_version cfg doc (Some m) h =
           Inr (set_record doc key
                  (JObj [(''updates'', JArr [new_entry None (prop_of (Some m) ''version'') h url])]),
                logs2)"
proof -
  have ens: "ensure_addon doc key = Inr (set_record doc key (JObj []), Some (JObj []), Visible)"
    by (rule ensure_addon_new [OF doc rec])
  have ups: "updates_of (Some (JObj [])) = Inr []"
    by (simp add: updates_of_def)
  have own1: "own_prop (set_record doc key (JObj [])) ''addons'' = Some (JObj (alist_put akvs key (JObj [])))"
    by (rule own_prop_set_record [OF doc])
  have push: "push_entry (set_record (set_record doc key (JObj [])) key (JObj (alist_put [] ''updates'' (JArr []))))
       \<lparr>pend_key = key, pend_mode = Visible, pend_last = None,
        pend_version = prop_of (Some m) ''version'', pend_url = url\<rparr> h =
     Inr (set_record doc key (JObj [(''updates'', JArr [new_entry None (prop_of (Some m) ''version'') h url])]))"
    using push_entry_visible [OF own1, of key "[]" "[]"] set_record_twice [OF doc] by simp
  show ?thesis
    using out id ens ups url push
    by (simp add: merge_version_def handle_manifest_def lift_exc_def store_updates_def Let_def)
qed

section \<open>The fields of the new entry\<close>

lemma assign_three_prop:
  "own_prop (drop_undefined (object_assign [] [src, [(''version'', mv), (''update_hash'', Some hs),
                                                    (''update_link'', Some ls)]])) k =
     (if k = ''update_link'' then Some ls
      else if k = ''update_hash'' then Some hs
      else if k = ''version'' then mv
      else (case map_of (rev src) k of None \<Rightarrow> None | Some v \<Rightarrow> v))"
proof -
  let ?kvs = "object_assign [] [src, [(''version'', mv), (''update_hash'', Some hs),
                                     (''update_link'', Some ls)]]"
  have d: "distinct (map fst ?kvs)" by (rule distinct_object_assign) simp
  have "map_of ?kvs k =
          (if k = ''update_link'' then Some (Some ls)
           else if k = ''update_hash'' then Some (Some hs)
           else if k = ''version'' then Some mv
           else map_of (rev src) k)"
    by (simp add: map_of_object_assign map_add_def split: option.splits)
  then show ?thesis
    by (simp add: map_of_drop_undefined [OF d])
qed

lemma new_entry_prop:
  "own_prop (new_entry lv mv h url) k =
     (if k = ''update_link'' then Some (JStr url)
      else if k = ''update_hash'' then Some (JStr (''sha256:'' @ h))
      else if k = ''version'' then mv
      else (case map_of (rev (own_enum_props lv)) k of None \<Rightarrow> None | Some v \<Rightarrow> v))"
  unfolding new_entry_def by (rule assign_three_prop)

lemma new_entry_version: "own_prop (new_entry lv mv h url) ''version'' = mv"
  by (simp add: new_entry_prop)

lemma new_entry_hash: "own_prop (new_entry lv mv h url) ''update_hash'' = Some (JStr (''sha256:'' @ h))"
  by (simp add: new_entry_prop)

lemma new_entry_link: "own_prop (new_entry lv mv h url) ''update_link'' = Some (JStr url)"
  by (simp add: new_entry_prop)

lemma new_entry_carried:
  assumes "distinct (map fst kvs)" and "k \<notin> {''version'', ''update_hash'', ''update_link''}"
  shows "own_prop (new_entry (Some (JObj kvs)) mv h url) k = map_of kvs k"
  using assms by (auto simp: new_entry_prop map_of_own_enum_obj split: option.splits)

section \<open>Versions after a merge\<close>

text \<open>No two entries have strictly equal versions (the invariant of section 3 of the specification).\<close>

fun versions_unique :: "json list \<Rightarrow> bool" where
  "versions_unique [] = True"
| "versions_unique (e # es) =
     ((\<forall>e' \<in> set es. \<not> js_strict_eq (own_prop e ''version'') (own_prop e' ''version'')) \<and>
      versions_unique es)"

lemma versions_unique_filter: "versions_unique xs \<Longrightarrow> versions_unique (filter P xs)"
  by (induction xs) auto

lemma versions_unique_snoc:
  "versions_unique xs \<Longrightarrow> \<forall>e \<in> set xs. \<not> js_strict_eq (own_prop e ''version'') (own_prop x ''version'') \<Longrightarrow>
   versions_unique (xs @ [x])"
  by (induction xs) auto

lemma kept_not_same: "e \<in> set (filter (\<lambda>e. \<not> same_version mv e) xs) \<Longrightarrow> \<not> js_strict_eq (own_prop e ''version'') mv"
  by (simp add: same_version_def)

lemma merge_version_existing_url_fail:
  assumes out: "str_truthy (update_out cfg)"
    and id: "addon_id_of (Some m) = Some (JStr key)" "key \<noteq> []"
    and doc: "own_prop doc ''addons'' = Some (JObj akvs)"
    and rec: "map_of akvs key = Some (JObj rkvs)"
    and upd: "map_of rkvs ''updates'' = Some (JArr xs)"
    and wf: "list_all wf_entry xs"
    and url: "resolve_url (update_link cfg) (latest xs) (prop_of (Some m) ''version'') = Inl f"
  shows "merge_version cfg doc (Some m) h = Inl f"
proof -
  have ens: "ensure_addon doc key = Inr (doc, Some (JObj rkvs), Visible)"
    by (rule ensure_addon_existing [OF doc rec])
  have ups: "updates_of (Some (JObj rkvs)) = Inr xs"
    using upd by (simp add: updates_of_def)
  show ?thesis
    using out id ens ups url scan_updates_wf [OF wf, of "prop_of (Some m) ''version''"]
    by (simp add: merge_version_def handle_manifest_def lift_exc_def store_updates_def Let_def)
qed

lemma wf_new_entry: "mv = Some (JStr v) \<Longrightarrow> wf_entry (new_entry lv mv h url)"
proof -
  assume mv: "mv = Some (JStr v)"
  let ?kvs = "object_assign [] [own_enum_props lv, [(''version'', mv),
     (''update_hash'', Some (JStr (''sha256:'' @ h))), (''update_link'', Some (JStr url))]]"
  have "distinct (map fst ?kvs)" by (rule distinct_object_assign) simp
  then obtain kvs' where e: "new_entry lv mv h url = JObj kvs'" and d: "distinct (map fst kvs')"
    unfolding new_entry_def using drop_undefined_distinct by blast
  have "map_of kvs' ''version'' = Some (JStr v)"
    using new_entry_version [of lv mv h url] e mv by simp
  with e d show ?thesis by (simp add: wf_entry_def)
qed

lemmas merge_defs [merge_eval] =
  merge_version_def handle_manifest_def addon_id_of_def ensure_addon_def updates_of_def
  track_last_def store_updates_def resolve_url_def reuse_url_def lift_exc_def push_entry_def
  new_entry_def set_record_def


section \<open>Properties of the merge\<close>

text \<open>
  The document, add-on manifest and configuration the witnesses use: the
  specification's example of section 8, an add-on \<^verbatim>\<open>ext@x\<close> whose record holds
  version \<^verbatim>\<open>1.0.1\<close> with link \<^verbatim>\<open>https://x/d?v=1.0.1\<close> and a carried field
  \<^verbatim>\<open>compat\<close>, merged with version \<^verbatim>\<open>1.0.2\<close> and no \<^verbatim>\<open>--update-link\<close>.
\<close>

abbreviation ex_entry :: json where
  "ex_entry \<equiv> JObj [(''version'', JStr ''1.0.1''), (''update_link'', JStr ''https://x/d?v=1.0.1''),
                   (''compat'', JObj [(''min'', JStr ''60'')])]"

abbreviation ex_record :: "(string \<times> json) list" where
  "ex_record \<equiv> [(''updates'', JArr [ex_entry])]"

abbreviation ex_doc :: json where
  "ex_doc \<equiv> JObj [(''addons'', JObj [(''ext@x'', JObj ex_record)])]"

abbreviation ex_manifest :: json where
  "ex_manifest \<equiv> JObj [(''applications'', JObj [(''gecko'', JObj [(''id'', JStr ''ext@x'')])]),
                      (''version'', JStr ''1.0.2'')]"

abbreviation ex_config :: config where
  "ex_config \<equiv> \<lparr>file_path = ''a.xpi'', update_in = None, update_out = Some ''u.json'',
                update_link = None\<rparr>"

lemma ex_facts:
  "str_truthy (update_out ex_config)"
  "addon_id_of (Some ex_manifest) = Some (JStr ''ext@x'')"
  "''ext@x'' \<noteq> []"
  "own_prop ex_doc ''addons'' = Some (JObj [(''ext@x'', JObj ex_record)])"
  "map_of [(''ext@x'', JObj ex_record)] ''ext@x'' = Some (JObj ex_record)"
  "map_of ex_record ''updates'' = Some (JArr [ex_entry])"
  "list_all wf_entry [ex_entry]"
  "resolve_url (update_link ex_config) (latest [ex_entry]) (prop_of (Some ex_manifest) ''version'') =
     Inr (''https://x/d?v=1.0.2'', [Info_ReusingUrl ''https://x/d?v=1.0.1'' ''https://x/d?v=1.0.2''])"
  "latest [ex_entry] = Some ex_entry"
  "prop_of (Some ex_manifest) ''version'' = Some (JStr ''1.0.2'')"
  by (simp_all add: addon_id_of_def wf_entry_def latest_def resolve_url_def reuse_url_def js_eval)

text \<open>
  C1: merging a new version into an add-on whose record holds well-formed entries
  succeeds whenever an update link can be resolved, and the record's \<^verbatim>\<open>updates\<close>
  become the former entries whose version differs from the new one, in their order,
  followed by the new entry (built from the latest entry, the new version, the digest and
  the link); the warnings are one per dropped entry, then the link message.
\<close>

theorem merge_appends_after_filter:
  assumes "str_truthy (update_out cfg)"
    and "addon_id_of (Some m) = Some (JStr key)" and "key \<noteq> []"
    and "own_prop doc ''addons'' = Some (JObj akvs)"
    and "map_of akvs key = Some (JObj rkvs)"
    and "map_of rkvs ''updates'' = Some (JArr xs)"
    and "list_all wf_entry xs"
    and "resolve_url (update_link cfg) (latest xs) (prop_of (Some m) ''version'') = Inr (url, logs2)"
  shows "\<exists>doc'. merge_version cfg doc (Some m) h =
                 Inr (doc', dup_warnings (prop_of (Some m) ''version'') xs @ logs2) \<and>
               record_updates doc' key =
                 Some (filter (\<lambda>e. \<not> same_version (prop_of (Some m) ''version'') e) xs @
                       [new_entry (latest xs) (prop_of (Some m) ''version'') h url])"
  using merge_version_existing_eq [OF assms, of h] record_updates_set_record [OF assms(4)]
  by blast

theorem merge_appends_after_filter_witness:
  "\<exists>doc'. merge_version ex_config ex_doc (Some ex_manifest) ''ff'' =
           Inr (doc', dup_warnings (prop_of (Some ex_manifest) ''version'') [ex_entry] @
                      [Info_ReusingUrl ''https://x/d?v=1.0.1'' ''https://x/d?v=1.0.2'']) \<and>
         record_updates doc' ''ext@x'' =
           Some (filter (\<lambda>e. \<not> same_version (prop_of (Some ex_manifest) ''version'') e) [ex_entry] @
                 [new_entry (latest [ex_entry]) (prop_of (Some ex_manifest) ''version'') ''ff''
                    ''https://x/d?v=1.0.2''])"
  by (rule merge_appends_after_filter [OF ex_facts(1-8)])

text \<open>
  C2: after merging version \<open>v\<close> (a string) into such a record, exactly one entry of
  the record has version \<open>v\<close>: the new, last one, which holds the new digest. Merging
  a version that is already present replaces its entry instead of adding a second one.
\<close>

theorem merge_single_entry_per_version:
  assumes "str_truthy (update_out cfg)"
    and "addon_id_of (Some m) = Some (JStr key)" and "key \<noteq> []"
    and "own_prop doc ''addons'' = Some (JObj akvs)"
    and "map_of akvs key = Some (JObj rkvs)"
    and "map_of rkvs ''updates'' = Some (JArr xs)"
    and "list_all wf_entry xs"
    and "resolve_url (update_link cfg) (latest xs) (prop_of (Some m) ''version'') = Inr (url, logs2)"
    and "prop_of (Some m) ''version'' = Some (JStr v)"
  shows "\<exists>doc' logs ys. merge_version cfg doc (Some m) h = Inr (doc', logs) \<and>
           record_updates doc' key = Some ys \<and>
           filter (\<lambda>e. own_prop e ''version'' = Some (JStr v)) ys = [last ys] \<and>
           own_prop (last ys) ''update_hash'' = Some (JStr (''sha256:'' @ h))"
proof -
  let ?mv = "prop_of (Some m) ''version''"
  let ?kept = "filter (\<lambda>e. \<not> same_version ?mv e) xs"
  let ?e = "new_entry (latest xs) ?mv h url"
  have none: "filter (\<lambda>e. own_prop e ''version'' = Some (JStr v)) ?kept = []"
    using kept_not_same [of _ ?mv xs] assms(9) by (auto simp: filter_empty_conv)
  have ev: "own_prop ?e ''version'' = Some (JStr v)"
    using assms(9) by (simp add: new_entry_version)
  show ?thesis
    using merge_version_existing_eq [OF assms(1-8), of h] record_updates_set_record [OF assms(4)]
      none ev new_entry_hash [of "latest xs" ?mv h url]
    by auto
qed

theorem merge_single_entry_per_version_witness:
  "\<exists>doc' logs ys. merge_version ex_config ex_doc (Some ex_manifest) ''ff'' = Inr (doc', logs) \<and>
     record_updates doc' ''ext@x'' = Some ys \<and>
     filter (\<lambda>e. own_prop e ''version'' = Some (JStr ''1.0.2'')) ys = [last ys] \<and>
     own_prop (last ys) ''update_hash'' = Some (JStr (''sha256:'' @ ''ff''))"
  by (rule merge_single_entry_per_version [OF ex_facts(1-8) ex_facts(10)])

text \<open>
  C3: the invariant of the update manifest that no two entries of a record have
  strictly equal versions is kept by a merge.
\<close>

theorem merge_keeps_versions_unique:
  assumes "str_truthy (update_out cfg)"
    and "addon_id_of (Some m) = Some (JStr key)" and "key \<noteq> []"
    and "own_prop doc ''addons'' = Some (JObj akvs)"
    and "map_of akvs key = Some (JObj rkvs)"
    and "map_of rkvs ''updates'' = Some (JArr xs)"
    and "list_all wf_entry xs"
    and "resolve_url (update_link cfg) (latest xs) (prop_of (Some m) ''version'') = Inr (url, logs2)"
    and "versions_unique xs"
  shows "\<exists>doc' logs ys. merge_version cfg doc (Some m) h = Inr (doc', logs) \<and>
           record_updates doc' key = Some ys \<and> versions_unique ys"
proof -
  let ?mv = "prop_of (Some m) ''version''"
  let ?kept = "filter (\<lambda>e. \<not> same_version ?mv e) xs"
  let ?e = "new_entry (latest xs) ?mv h url"
  have "\<forall>e \<in> set ?kept. \<not> js_strict_eq (own_prop e ''version'') (own_prop ?e ''version'')"
    using kept_not_same [of _ ?mv xs] by (simp add: new_entry_version)
  then have "versions_unique (?kept @ [?e])"
    using versions_unique_snoc versions_unique_filter assms(9) by blast
  then show ?thesis
    using merge_version_existing_eq [OF assms(1-8), of h] record_updates_set_record [OF assms(4)]
    by auto
qed

theorem merge_keeps_versions_unique_witness:
  "versions_unique [ex_entry] \<and>
   (\<exists>doc' logs ys. merge_version ex_config ex_doc (Some ex_manifest) ''ff'' = Inr (doc', logs) \<and>
      record_updates doc' ''ext@x'' = Some ys \<and> versions_unique ys)"
proof
  show u: "versions_unique [ex_entry]" by simp
  show "\<exists>doc' logs ys. merge_version ex_config ex_doc (Some ex_manifest) ''ff'' = Inr (doc', logs) \<and>
      record_updates doc' ''ext@x'' = Some ys \<and> versions_unique ys"
    by (rule merge_keeps_versions_unique [OF ex_facts(1-8) u])
qed

text \<open>
  C4: the new entry carries every field of the latest entry other than
  \<^verbatim>\<open>version\<close>, \<^verbatim>\<open>update_hash\<close> and \<^verbatim>\<open>update_link\<close> (for instance the
  platform constraints), with its value unchanged.
\<close>

theorem merge_carries_fields:
  assumes "str_truthy (update_out cfg)"
    and "addon_id_of (Some m) = Some (JStr key)" and "key \<noteq> []"
    and "own_prop doc ''addons'' = Some (JObj akvs)"
    and "map_of akvs key = Some (JObj rkvs)"
    and "map_of rkvs ''updates'' = Some (JArr xs)"
    and "list_all wf_entry xs"
    and "resolve_url (update_link cfg) (latest xs) (prop_of (Some m) ''version'') = Inr (url, logs2)"
    and "latest xs = Some (JObj bkvs)"
    and "k \<notin> {''version'', ''update_hash'', ''update_link''}"
  shows "\<exists>doc' logs ys. merge_version cfg doc (Some m) h = Inr (doc', logs) \<and>
           record_updates doc' key = Some ys \<and> own_prop (last ys) k = map_of bkvs k"
proof -
  have "wf_entry (JObj bkvs)" by (rule latest_wf [OF assms(7,9)])
  then have "distinct (map fst bkvs)" by (simp add: wf_entry_def)
  then have "own_prop (new_entry (latest xs) (prop_of (Some m) ''version'') h url) k = map_of bkvs k"
    using new_entry_carried assms(9,10) by simp
  then show ?thesis
    using merge_version_existing_eq [OF assms(1-8), of h] record_updates_set_record [OF assms(4)]
    by auto
qed

theorem merge_carries_fields_witness:
  "\<exists>doc' logs ys. merge_version ex_config ex_doc (Some ex_manifest) ''ff'' = Inr (doc', logs) \<and>
     record_updates doc' ''ext@x'' = Some ys \<and>
     own_prop (last ys) ''compat'' = map_of [(''version'', JStr ''1.0.1''),
        (''update_link'', JStr ''https://x/d?v=1.0.1''), (''compat'', JObj [(''min'', JStr ''60'')])] ''compat''"
  by (rule merge_carries_fields [OF ex_facts(1-8) ex_facts(9)]) simp

text \<open>
  C5: the filter loop with its \<^verbatim>\<open>lastVersion\<close> side effect (lines 116--124) is,
  on well-formed entries, the pure fold of section 9 of the specification: it returns
  the entries whose version is not strictly equal to the new one, the running maximum
  that only a strictly greater version replaces, and one warning per dropped entry.
\<close>

theorem scan_is_filter_and_fold:
  "list_all wf_entry xs \<Longrightarrow>
   scan_updates mv None xs = Inr (filter (\<lambda>e. \<not> same_version mv e) xs, latest xs, dup_warnings mv xs)"
  by (rule scan_updates_wf)

theorem scan_is_filter_and_fold_witness:
  "list_all wf_entry [ex_entry, JObj [(''version'', JStr ''1.0.2'')]] \<and>
   scan_updates (Some (JStr ''1.0.2'')) None [ex_entry, JObj [(''version'', JStr ''1.0.2'')]] =
     Inr (filter (\<lambda>e. \<not> same_version (Some (JStr ''1.0.2'')) e) [ex_entry, JObj [(''version'', JStr ''1.0.2'')]],
          latest [ex_entry, JObj [(''version'', JStr ''1.0.2'')]],
          dup_warnings (Some (JStr ''1.0.2'')) [ex_entry, JObj [(''version'', JStr ''1.0.2'')]])"
proof
  show w: "list_all wf_entry [ex_entry, JObj [(''version'', JStr ''1.0.2'')]]"
    by (simp add: wf_entry_def)
  show "scan_updates (Some (JStr ''1.0.2'')) None [ex_entry, JObj [(''version'', JStr ''1.0.2'')]] =
     Inr (filter (\<lambda>e. \<not> same_version (Some (JStr ''1.0.2'')) e) [ex_entry, JObj [(''version'', JStr ''1.0.2'')]],
          latest [ex_entry, JObj [(''version'', JStr ''1.0.2'')]],
          dup_warnings (Some (JStr ''1.0.2'')) [ex_entry, JObj [(''version'', JStr ''1.0.2'')]])"
    by (rule scan_is_filter_and_fold [OF w])
qed

text \<open>
  C6: with \<^verbatim>\<open>--update-link\<close>, the link is the template with its placeholder
  \<^verbatim>\<open>@version@\<close> replaced by the percent-encoded new version (the first
  placeholder, when nothing before it contains \<^verbatim>\<open>@\<close>); no \<^verbatim>\<open>$\<close>-pattern of
  \<^verbatim>\<open>replace\<close> can interfere, since the encoding has no \<^verbatim>\<open>$\<close>. The rest
  \<open>q\<close> of the template is kept as it is, a second \<^verbatim>\<open>@version@\<close> included,
  where the specification (section 4.4) says every occurrence is substituted.
\<close>

theorem template_link_substitutes:
  assumes "CHR ''@'' \<notin> set p"
  shows "resolve_url (Some (p @ ''@version@'' @ q)) lv mv =
           Inr (p @ encode_uri_component (js_to_string mv) @ q, [])"
proof -
  have "index_of ''@version@'' (p @ ''@version@'' @ q) = Some (length p)"
    by (rule index_of_first_hd) (simp_all add: assms)
  from js_replace_encoded [OF this, of "js_to_string mv"] show ?thesis
    by (simp add: resolve_url_def)
qed

theorem template_link_substitutes_witness:
  "CHR ''@'' \<notin> set ''https://y/'' \<and>
   resolve_url (Some (''https://y/'' @ ''@version@'' @ ''.xpi'')) None (Some (JStr ''2.0'')) =
     Inr (''https://y/'' @ encode_uri_component (js_to_string (Some (JStr ''2.0''))) @ ''.xpi'', [])"
proof
  show a: "CHR ''@'' \<notin> set ''https://y/''" by simp
  show "resolve_url (Some (''https://y/'' @ ''@version@'' @ ''.xpi'')) None (Some (JStr ''2.0'')) =
     Inr (''https://y/'' @ encode_uri_component (js_to_string (Some (JStr ''2.0''))) @ ''.xpi'', [])"
    by (rule template_link_substitutes [OF a])
qed

text \<open>
  C13: the version is recoverable from a link built from a template: two versions that
  give the same link from the same template are equal, since the percent-encoding of
  \<^verbatim>\<open>encodeURIComponent\<close> is inverted by decoding.
\<close>

theorem template_link_injective:
  assumes p: "CHR ''@'' \<notin> set p"
    and u1: "resolve_url (Some (p @ ''@version@'' @ q)) lv1 (Some (JStr v1)) = Inr (u, l1)"
    and u2: "resolve_url (Some (p @ ''@version@'' @ q)) lv2 (Some (JStr v2)) = Inr (u, l2)"
  shows "v1 = v2"
proof -
  have i: "index_of ''@version@'' (p @ ''@version@'' @ q) = Some (length p)"
    by (rule index_of_first_hd) (simp_all add: p)
  have "u = p @ encode_uri_component v1 @ q" and "u = p @ encode_uri_component v2 @ q"
    using u1 u2 js_replace_encoded [OF i, of v1] js_replace_encoded [OF i, of v2]
    by (simp_all add: resolve_url_def)
  then have "encode_uri_component v1 = encode_uri_component v2" by simp
  then have "decode_uri_component (encode_uri_component v1) = decode_uri_component (encode_uri_component v2)"
    by simp
  then show ?thesis by (simp add: decode_encode_uri_component)
qed

theorem template_link_injective_witness:
  "CHR ''@'' \<notin> set ''https://y/'' \<and>
   resolve_url (Some (''https://y/'' @ ''@version@'' @ ''.xpi'')) None (Some (JStr ''2.0'')) =
     Inr (''https://y/2.0.xpi'', []) \<and>
   ''2.0'' = ''2.0''"
proof -
  have a: "CHR ''@'' \<notin> set ''https://y/''" by simp
  have r: "resolve_url (Some (''https://y/'' @ ''@version@'' @ ''.xpi'')) None (Some (JStr ''2.0'')) =
     Inr (''https://y/2.0.xpi'', [])" by (simp add: resolve_url_def js_eval)
  from template_link_injective [OF a r r] a r show ?thesis by simp
qed

text \<open>
  C7: without \<^verbatim>\<open>--update-link\<close>, the link of the latest entry is reused with the
  first occurrence of its percent-encoded version replaced by the percent-encoded new
  version, and the reuse is reported.
\<close>

theorem reuse_link_substitutes:
  assumes "\<not> str_truthy link"
    and "map_of kvs ''update_link'' = Some (JStr (p @ encode_uri_component old @ q))"
    and "p @ encode_uri_component old @ q \<noteq> []"
    and "map_of kvs ''version'' = Some (JStr old)"
    and "index_of (encode_uri_component old) (p @ encode_uri_component old @ q) = Some (length p)"
  shows "resolve_url link (Some (JObj kvs)) mv =
           Inr (p @ encode_uri_component (js_to_string mv) @ q,
                [Info_ReusingUrl (p @ encode_uri_component old @ q)
                                 (p @ encode_uri_component (js_to_string mv) @ q)])"
  using assms js_replace_encoded [OF assms(5), of "js_to_string mv"]
  by (simp add: resolve_url_def reuse_url_def prop_of_def Let_def)

theorem reuse_link_substitutes_witness:
  "\<not> str_truthy None \<and>
   map_of [(''version'', JStr ''1.0.1''), (''update_link'', JStr ''https://x/d?v=1.0.1'')] ''update_link'' =
     Some (JStr (''https://x/d?v='' @ encode_uri_component ''1.0.1'' @ [])) \<and>
   resolve_url None (Some (JObj [(''version'', JStr ''1.0.1''), (''update_link'', JStr ''https://x/d?v=1.0.1'')]))
       (Some (JStr ''1.0.2'')) =
     Inr (''https://x/d?v='' @ encode_uri_component (js_to_string (Some (JStr ''1.0.2''))) @ [],
          [Info_ReusingUrl (''https://x/d?v='' @ encode_uri_component ''1.0.1'' @ [])
             (''https://x/d?v='' @ encode_uri_component (js_to_string (Some (JStr ''1.0.2''))) @ [])])"
proof (intro conjI)
  show a1: "\<not> str_truthy None" by simp
  show a2: "map_of [(''version'', JStr ''1.0.1''), (''update_link'', JStr ''https://x/d?v=1.0.1'')] ''update_link'' =
     Some (JStr (''https://x/d?v='' @ encode_uri_component ''1.0.1'' @ []))"
    by (simp add: js_eval)
  have a3: "''https://x/d?v='' @ encode_uri_component ''1.0.1'' @ [] \<noteq> []" by simp
  have a4: "map_of [(''version'', JStr ''1.0.1''), (''update_link'', JStr ''https://x/d?v=1.0.1'')] ''version'' =
     Some (JStr ''1.0.1'')" by simp
  have a5: "index_of (encode_uri_component ''1.0.1'') (''https://x/d?v='' @ encode_uri_component ''1.0.1'' @ []) =
     Some (length ''https://x/d?v='')"
    by (simp add: js_eval)
  show "resolve_url None (Some (JObj [(''version'', JStr ''1.0.1''), (''update_link'', JStr ''https://x/d?v=1.0.1'')]))
       (Some (JStr ''1.0.2'')) =
     Inr (''https://x/d?v='' @ encode_uri_component (js_to_string (Some (JStr ''1.0.2''))) @ [],
          [Info_ReusingUrl (''https://x/d?v='' @ encode_uri_component ''1.0.1'' @ [])
             (''https://x/d?v='' @ encode_uri_component (js_to_string (Some (JStr ''1.0.2''))) @ [])])"
    by (rule reuse_link_substitutes [OF a1 a2 a3 a4 a5])
qed

text \<open>
  C8: when the former link does not contain the percent-encoded former version, it is
  reused unchanged, without an error (the permissive fallback the specification asks
  implementations to keep).
\<close>

theorem reuse_link_unchanged:
  assumes "\<not> str_truthy link"
    and "map_of kvs ''update_link'' = Some (JStr l)" and "l \<noteq> []"
    and "map_of kvs ''version'' = Some (JStr old)"
    and "index_of (encode_uri_component old) l = None"
  shows "resolve_url link (Some (JObj kvs)) mv = Inr (l, [Info_ReusingUrl l l])"
  using assms by (simp add: resolve_url_def reuse_url_def prop_of_def js_replace_absent)

theorem reuse_link_unchanged_witness:
  "index_of (encode_uri_component ''1.0.1'') ''https://x/latest.xpi'' = None \<and>
   resolve_url None (Some (JObj [(''version'', JStr ''1.0.1''), (''update_link'', JStr ''https://x/latest.xpi'')]))
     (Some (JStr ''1.0.2'')) =
   Inr (''https://x/latest.xpi'', [Info_ReusingUrl ''https://x/latest.xpi'' ''https://x/latest.xpi''])"
proof
  show a: "index_of (encode_uri_component ''1.0.1'') ''https://x/latest.xpi'' = None"
    by (simp add: js_eval)
  show "resolve_url None (Some (JObj [(''version'', JStr ''1.0.1''), (''update_link'', JStr ''https://x/latest.xpi'')]))
     (Some (JStr ''1.0.2'')) =
   Inr (''https://x/latest.xpi'', [Info_ReusingUrl ''https://x/latest.xpi'' ''https://x/latest.xpi''])"
    by (rule reuse_link_unchanged [OF _ _ _ _ a]) simp_all
qed

text \<open>
  C9: without \<^verbatim>\<open>--update-link\<close> and without a link on the latest entry (in
  particular for an add-on with no entry yet), the merge fails with "No update URL
  specified nor reused" and produces no document.
\<close>

theorem merge_without_link_fails:
  assumes "str_truthy (update_out cfg)"
    and "addon_id_of (Some m) = Some (JStr key)" and "key \<noteq> []"
    and "own_prop doc ''addons'' = Some (JObj akvs)"
    and "map_of akvs key = Some (JObj rkvs)"
    and "map_of rkvs ''updates'' = Some (JArr xs)"
    and "list_all wf_entry xs"
    and "\<not> str_truthy (update_link cfg)"
    and "\<not> js_truthy (prop_of (latest xs) ''update_link'')"
  shows "merge_version cfg doc (Some m) h = Inl Err_NoUpdateUrl"
proof -
  have "resolve_url (update_link cfg) (latest xs) (prop_of (Some m) ''version'') = Inl Err_NoUpdateUrl"
    using assms(8,9) by (simp add: resolve_url_def reuse_url_def)
  then show ?thesis by (rule merge_version_existing_url_fail [OF assms(1-7)])
qed

theorem merge_without_link_fails_witness:
  "latest [] = None \<and>
   merge_version ex_config (JObj [(''addons'', JObj [(''ext@x'', JObj [(''updates'', JArr [])])])])
     (Some ex_manifest) ''ff'' = Inl Err_NoUpdateUrl"
proof
  show l: "latest [] = None" by (simp add: latest_def)
  have a4: "own_prop (JObj [(''addons'', JObj [(''ext@x'', JObj [(''updates'', JArr [])])])]) ''addons'' =
      Some (JObj [(''ext@x'', JObj [(''updates'', JArr [])])])" by simp
  have a5: "map_of [(''ext@x'', JObj [(''updates'', JArr [])])] ''ext@x'' = Some (JObj [(''updates'', JArr [])])"
    by simp
  have a6: "map_of [(''updates'', JArr [])] ''updates'' = Some (JArr [])" by simp
  have a7: "list_all wf_entry []" by simp
  have a8: "\<not> str_truthy (update_link ex_config)" by simp
  have a9: "\<not> js_truthy (prop_of (latest []) ''update_link'')" by (simp add: l prop_of_def)
  show "merge_version ex_config (JObj [(''addons'', JObj [(''ext@x'', JObj [(''updates'', JArr [])])])])
     (Some ex_manifest) ''ff'' = Inl Err_NoUpdateUrl"
    by (rule merge_without_link_fails [OF ex_facts(1-3) a4 a5 a6 a7 a8 a9])
qed

text \<open>
  C10: an add-on manifest without \<^verbatim>\<open>applications.gecko.id\<close> (or with a falsy one)
  ends the run with "Add-on id not found in manifest" when an output path is given.
\<close>

theorem merge_without_id_fails:
  "str_truthy (update_out cfg) \<Longrightarrow> \<not> js_truthy (addon_id_of (Some m)) \<Longrightarrow>
   merge_version cfg doc (Some m) h = Inl Err_NoAddonId"
  by (simp add: merge_version_def handle_manifest_def Let_def)

theorem merge_without_id_fails_witness:
  "\<not> js_truthy (addon_id_of (Some (JObj [(''version'', JStr ''1.0'')]))) \<and>
   merge_version ex_config ex_doc (Some (JObj [(''version'', JStr ''1.0'')])) ''ff'' = Inl Err_NoAddonId"
proof
  show a: "\<not> js_truthy (addon_id_of (Some (JObj [(''version'', JStr ''1.0'')])))"
    by (simp add: addon_id_of_def prop_of_def)
  show "merge_version ex_config ex_doc (Some (JObj [(''version'', JStr ''1.0'')])) ''ff'' = Inl Err_NoAddonId"
    by (rule merge_without_id_fails [OF ex_facts(1) a])
qed

text \<open>
  C12: merging the same version twice, with two digests, into an add-on that has no
  record yet leaves exactly one entry, of that version, holding the second digest
  (the specification's "idempotence of structure").
\<close>

theorem merge_twice_keeps_second:
  assumes out: "str_truthy (update_out cfg)" and link: "str_truthy (update_link cfg)"
    and id1: "addon_id_of (Some m1) = Some (JStr key)"
    and id2: "addon_id_of (Some m2) = Some (JStr key)" and k: "key \<noteq> []"
    and v1: "prop_of (Some m1) ''version'' = Some (JStr v)"
    and v2: "prop_of (Some m2) ''version'' = Some (JStr v)"
    and doc: "own_prop doc ''addons'' = Some (JObj akvs)" and none: "map_of akvs key = None"
  shows "\<exists>d1 l1 d2 l2 e. merge_version cfg doc (Some m1) h1 = Inr (d1, l1) \<and>
           merge_version cfg d1 (Some m2) h2 = Inr (d2, l2) \<and>
           record_updates d2 key = Some [e] \<and>
           own_prop e ''version'' = Some (JStr v) \<and>
           own_prop e ''update_hash'' = Some (JStr (''sha256:'' @ h2))"
proof -
  define url where
    "url = js_replace (the (update_link cfg)) ''@version@'' (encode_uri_component (js_to_string (Some (JStr v))))"
  have r1: "resolve_url (update_link cfg) None (prop_of (Some m1) ''version'') = Inr (url, [])"
    using link v1 by (simp add: resolve_url_def url_def)
  define e1 where "e1 = new_entry None (prop_of (Some m1) ''version'') h1 url"
  define d1 where "d1 = set_record doc key (JObj [(''updates'', JArr [e1])])"
  have m1: "merge_version cfg doc (Some m1) h1 = Inr (d1, [])"
    using merge_version_new_eq [OF out id1 k doc none r1, of h1] by (simp add: d1_def e1_def)
  have doc1: "own_prop d1 ''addons'' = Some (JObj (alist_put akvs key (JObj [(''updates'', JArr [e1])])))"
    unfolding d1_def by (rule own_prop_set_record [OF doc])
  have rec1: "map_of (alist_put akvs key (JObj [(''updates'', JArr [e1])])) key =
      Some (JObj [(''updates'', JArr [e1])])" by simp
  have upd1: "map_of [(''updates'', JArr [e1])] ''updates'' = Some (JArr [e1])" by simp
  have wf1: "list_all wf_entry [e1]"
    using wf_new_entry [OF v1] by (simp add: e1_def)
  have r2: "resolve_url (update_link cfg) (latest [e1]) (prop_of (Some m2) ''version'') = Inr (url, [])"
    using link v2 by (simp add: resolve_url_def url_def)
  define e2 where "e2 = new_entry (latest [e1]) (prop_of (Some m2) ''version'') h2 url"
  have gone: "filter (\<lambda>e. \<not> same_version (prop_of (Some m2) ''version'') e) [e1] = []"
    using v1 v2 by (simp add: same_version_def e1_def new_entry_version)
  have m2: "merge_version cfg d1 (Some m2) h2 =
      Inr (set_record d1 key (JObj (alist_put [(''updates'', JArr [e1])] ''updates'' (JArr [e2]))),
           dup_warnings (prop_of (Some m2) ''version'') [e1] @ [])"
    using merge_version_existing_eq [OF out id2 k doc1 rec1 upd1 wf1 r2, of h2] gone
    by (simp add: e2_def)
  have ru: "record_updates (set_record d1 key (JObj (alist_put [(''updates'', JArr [e1])] ''updates'' (JArr [e2])))) key
      = Some [e2]"
    by (rule record_updates_set_record [OF doc1])
  have "own_prop e2 ''version'' = Some (JStr v)" "own_prop e2 ''update_hash'' = Some (JStr (''sha256:'' @ h2))"
    using v2 by (simp_all add: e2_def new_entry_version new_entry_hash)
  with m1 m2 ru show ?thesis by blast
qed

theorem merge_twice_keeps_second_witness:
  "\<exists>d1 l1 d2 l2 e.
     merge_version (ex_config\<lparr>update_link := Some ''https://h/@version@''\<rparr>) (JObj [(''addons'', JObj [])])
       (Some ex_manifest) ''aa'' = Inr (d1, l1) \<and>
     merge_version (ex_config\<lparr>update_link := Some ''https://h/@version@''\<rparr>) d1 (Some ex_manifest) ''bb'' =
       Inr (d2, l2) \<and>
     record_updates d2 ''ext@x'' = Some [e] \<and>
     own_prop e ''version'' = Some (JStr ''1.0.2'') \<and>
     own_prop e ''update_hash'' = Some (JStr (''sha256:'' @ ''bb''))"
proof (rule merge_twice_keeps_second)
  show "str_truthy (update_out (ex_config\<lparr>update_link := Some ''https://h/@version@''\<rparr>))" by simp
  show "str_truthy (update_link (ex_config\<lparr>update_link := Some ''https://h/@version@''\<rparr>))" by simp
  show "addon_id_of (Some ex_manifest) = Some (JStr ''ext@x'')" by (rule ex_facts(2))
  show "addon_id_of (Some ex_manifest) = Some (JStr ''ext@x'')" by (rule ex_facts(2))
  show "''ext@x'' \<noteq> []" by simp
  show "prop_of (Some ex_manifest) ''version'' = Some (JStr ''1.0.2'')" by (rule ex_facts(10))
  show "prop_of (Some ex_manifest) ''version'' = Some (JStr ''1.0.2'')" by (rule ex_facts(10))
  show "own_prop (JObj [(''addons'', JObj [])]) ''addons'' = Some (JObj [])" by simp
  show "map_of [] ''ext@x'' = (None :: json option)" by simp
qed

text \<open>
  C14: with no output path the handler stops before anything else: the document is
  left as it was and only the message "No update.json output path specified" is
  printed, even for an add-on manifest without an id. The specification (section 6)
  says such a run still processes and validates; the script validates nothing.
\<close>

theorem no_output_skips_validation:
  "\<not> str_truthy (update_out cfg) \<Longrightarrow> merge_version cfg doc (Some m) h = Inr (doc, [Info_NoOutputPath])"
  by (simp add: merge_version_def handle_manifest_def)

theorem no_output_skips_validation_witness:
  "\<not> js_truthy (addon_id_of (Some (JObj []))) \<and> \<not> str_truthy (update_out (ex_config\<lparr>update_out := None\<rparr>)) \<and>
   merge_version (ex_config\<lparr>update_out := None\<rparr>) ex_doc (Some (JObj [])) ''ff'' = Inr (ex_doc, [Info_NoOutputPath])"
proof (intro conjI)
  show "\<not> js_truthy (addon_id_of (Some (JObj [])))" by (simp add: addon_id_of_def prop_of_def)
  show a: "\<not> str_truthy (update_out (ex_config\<lparr>update_out := None\<rparr>))" by simp
  show "merge_version (ex_config\<lparr>update_out := None\<rparr>) ex_doc (Some (JObj [])) ''ff'' = Inr (ex_doc, [Info_NoOutputPath])"
    by (rule no_output_skips_validation [OF a])
qed

text \<open>
  C16: an update manifest that parses but has no \<^verbatim>\<open>addons\<close> object (for instance
  \<^verbatim>\<open>{}\<close>) makes the handler throw, and the run ends with "Could not parse manifest",
  a message about the add-on's manifest, although the specification only foresees a
  warning and an empty document for an unusable update manifest.
\<close>

theorem missing_addons_reported_as_parse_error:
  assumes "str_truthy (update_out cfg)" and "js_truthy (addon_id_of (Some m))"
    and "own_prop doc ''addons'' = None"
  shows "merge_version cfg doc (Some m) h = Inl Err_ManifestParse"
proof -
  have "js_get (Some doc) ''addons'' = Inl TypeError \<or> js_get (Some doc) ''addons'' = Inr None"
    using assms(3) by (cases "doc = JNull") (simp add: js_get_def, simp add: js_get_own)
  then have "ensure_addon doc (js_to_string (addon_id_of (Some m))) = Inl TypeError"
    by (auto simp: ensure_addon_def js_get_def)
  with assms(1,2) show ?thesis
    by (simp add: merge_version_def handle_manifest_def lift_exc_def Let_def)
qed

theorem missing_addons_reported_as_parse_error_witness:
  "own_prop (JObj []) ''addons'' = None \<and>
   merge_version ex_config (JObj []) (Some ex_manifest) ''ff'' = Inl Err_ManifestParse"
proof
  show a: "own_prop (JObj []) ''addons'' = None" by simp
  have i: "js_truthy (addon_id_of (Some ex_manifest))" by (simp add: ex_facts(2))
  show "merge_version ex_config (JObj []) (Some ex_manifest) ''ff'' = Inl Err_ManifestParse"
    by (rule missing_addons_reported_as_parse_error [OF ex_facts(1) i a])
qed

text \<open>
  C17: an add-on manifest without \<^verbatim>\<open>version\<close> is not rejected: merged into an
  add-on with no record, it gives a record of one entry that has no \<^verbatim>\<open>version\<close> field
  and whose link has \<^verbatim>\<open>undefined\<close> in place of the version. The
  specification calls the version required.
\<close>

theorem missing_version_accepted:
  assumes out: "str_truthy (update_out cfg)"
    and id: "addon_id_of (Some m) = Some (JStr key)" "key \<noteq> []"
    and doc: "own_prop doc ''addons'' = Some (JObj akvs)"
    and rec: "map_of akvs key = None"
    and link: "update_link cfg = Some (p @ ''@version@'' @ q)" "CHR ''@'' \<notin> set p"
    and nover: "own_prop m ''version'' = None"
  shows "\<exists>doc' e. merge_version cfg doc (Some m) h = Inr (doc', []) \<and> record_updates doc' key = Some [e] \<and>
           own_prop e ''version'' = None \<and>
           own_prop e ''update_link'' = Some (JStr (p @ ''undefined'' @ q))"
proof -
  have mv: "prop_of (Some m) ''version'' = None" using nover by (simp add: prop_of_def)
  have i: "index_of ''@version@'' (p @ ''@version@'' @ q) = Some (length p)"
    by (rule index_of_first_hd) (simp_all add: link(2))
  have enc: "encode_uri_component ''undefined'' = ''undefined''" by (simp add: uri_unreserved_def)
  have url: "resolve_url (update_link cfg) None (prop_of (Some m) ''version'') = Inr (p @ ''undefined'' @ q, [])"
    using js_replace_encoded [OF i, of "''undefined''"] link(1) mv enc by (simp add: resolve_url_def)
  let ?e = "new_entry None None h (p @ ''undefined'' @ q)"
  have "merge_version cfg doc (Some m) h =
          Inr (set_record doc key (JObj [(''updates'', JArr [?e])]), [])"
    using merge_version_new_eq [OF out id doc rec url, of h] mv by simp
  moreover have "record_updates (set_record doc key (JObj [(''updates'', JArr [?e])])) key = Some [?e]"
    using record_updates_set_record [OF doc, of key "[]" "[?e]"] by simp
  moreover have "own_prop ?e ''version'' = None" by (rule new_entry_version)
  moreover have "own_prop ?e ''update_link'' = Some (JStr (p @ ''undefined'' @ q))" by (rule new_entry_link)
  ultimately show ?thesis by blast
qed

theorem missing_version_accepted_witness:
  "\<exists>doc' e. merge_version (ex_config\<lparr>update_link := Some (''https://h/'' @ ''@version@'' @ [])\<rparr>)
     (JObj [(''addons'', JObj [])])
     (Some (JObj [(''applications'', JObj [(''gecko'', JObj [(''id'', JStr ''ext@x'')])])])) ''ab'' = Inr (doc', []) \<and>
     record_updates doc' ''ext@x'' = Some [e] \<and> own_prop e ''version'' = None \<and>
     own_prop e ''update_link'' = Some (JStr (''https://h/'' @ ''undefined'' @ []))"
proof (rule missing_version_accepted [where akvs = "[]"])
  show "addon_id_of (Some (JObj [(''applications'', JObj [(''gecko'', JObj [(''id'', JStr ''ext@x'')])])])) =
          Some (JStr ''ext@x'')" by (simp add: addon_id_of_def prop_of_def)
qed simp_all

text \<open>
  C31. The \<^verbatim>\<open>lastVersion\<close> the loop of lines 116--124 ends with is an existing
  entry of greatest version, and the earliest such: every entry before its first
  occurrence has a strictly lower version (a later entry of equal version does not
  replace it, since the test is \<^verbatim>\<open>> 0\<close>).
\<close>

theorem loop_tracks_earliest_maximum:
  assumes "list_all wf_entry xs" and "scan_updates mv None xs = Inr (kept, Some b, logs)"
  shows "b \<in> set xs \<and> (\<forall>e \<in> set xs. compver (version_str e) (version_str b) \<le> 0) \<and>
         (\<forall>e \<in> set (takeWhile (\<lambda>e. e \<noteq> b) xs). compver (version_str e) (version_str b) < 0)"
proof -
  have "latest xs = Some b" using scan_updates_wf [OF assms(1), of mv] assms(2) by simp
  then obtain x xs' where xs: "xs = x # xs'" and b: "b = latest_from x xs'"
    by (cases xs) (auto simp: latest_def)
  show ?thesis
    using latest_from_in [of x xs'] latest_from_max [of _ x xs'] latest_from_earliest [of _ x xs']
    unfolding xs b by auto
qed

theorem loop_tracks_earliest_maximum_witness:
  "compver ''1.9'' ''1.10'' < 0 \<and> compver ''1.010'' ''1.10'' \<le> 0"
proof -
  let ?xs = "[JObj [(''version'', JStr ''1.9'')], JObj [(''version'', JStr ''1.10'')],
              JObj [(''version'', JStr ''1.010'')]]"
  have wf: "list_all wf_entry ?xs" by (simp add: wf_entry_def)
  have "scan_updates (Some (JStr ''2.0'')) None ?xs =
          Inr (?xs, Some (JObj [(''version'', JStr ''1.10'')]), [])"
    by (simp add: track_last_def js_eval)
  from loop_tracks_earliest_maximum [OF wf this] show ?thesis by (simp add: version_str_def)
qed

text \<open>
  C33. A record that is a truthy primitive (a non-empty string, a non-zero number,
  \<^verbatim>\<open>true\<close>) passes the handler: its \<^verbatim>\<open>updates\<close> reads as \<^verbatim>\<open>undefined\<close> and the
  assignment of line 116 is ignored in sloppy mode. The push of line 145 then throws,
  and the run fails with the message of a failed digest, "Could not compute hash".
\<close>

theorem primitive_record_fails_at_hash:
  assumes out: "str_truthy (update_out cfg)" and link: "str_truthy (update_link cfg)"
    and id: "addon_id_of (Some m) = Some (JStr key)" "key \<noteq> []"
    and doc: "own_prop doc ''addons'' = Some (JObj akvs)"
    and rec: "map_of akvs key = Some r" and truthy: "js_truthy (Some r)"
    and prim: "\<forall>kvs. r \<noteq> JObj kvs" "\<forall>xs. r \<noteq> JArr xs"
  shows "merge_version cfg doc (Some m) h = Inl Err_Hash"
proof -
  have dn: "doc \<noteq> JNull" using doc by (metis own_prop_not_null)
  have ens: "ensure_addon doc key = Inr (doc, Some r, Visible)"
    using doc rec truthy dn by (simp add: ensure_addon_def js_get_own)
  have "own_prop r ''updates'' = None" using prim by (cases r) auto
  then have ups: "updates_of (Some r) = Inr []"
    using truthy by (simp add: updates_of_def prop_of_def)
  have st: "store_updates doc key (Some r) Visible [] = (doc, Broken)"
    using prim by (cases r) (auto simp: store_updates_def)
  show ?thesis
    using out link id ens ups st
    by (simp add: merge_version_def handle_manifest_def lift_exc_def Let_def resolve_url_def push_entry_def)
qed

theorem primitive_record_fails_at_hash_witness:
  "merge_version (ex_config\<lparr>update_link := Some ''https://h/@version@''\<rparr>)
     (JObj [(''addons'', JObj [(''ext@x'', JStr ''x'')])]) (Some ex_manifest) ''ab'' = Inl Err_Hash"
proof (rule primitive_record_fails_at_hash [OF _ _ ex_facts(2,3)])
  show "own_prop (JObj [(''addons'', JObj [(''ext@x'', JStr ''x'')])]) ''addons'' =
          Some (JObj [(''ext@x'', JStr ''x'')])" by simp
  show "map_of [(''ext@x'', JStr ''x'')] ''ext@x'' = Some (JStr ''x'')" by simp
  show "js_truthy (Some (JStr ''x''))" by simp
qed simp_all

text \<open>
  C15. When \<^verbatim>\<open>addons\<close> is an array, the record is stored as a named property of
  the array, which \<^verbatim>\<open>JSON.stringify\<close> does not write: whatever the array holds,
  a merge that succeeds gives back the input document, without the new entry.
\<close>

theorem array_addons_entry_lost:
  assumes out: "str_truthy (update_out cfg)" and id: "js_truthy (addon_id_of (Some m))"
    and arr: "own_prop doc ''addons'' = Some (JArr xs)"
    and url: "resolve_url (update_link cfg) None (prop_of (Some m) ''version'') = Inr (u, logs)"
  shows "merge_version cfg doc (Some m) h = Inr (doc, logs)"
proof -
  have dn: "doc \<noteq> JNull" using arr by (metis own_prop_not_null)
  have ens: "ensure_addon doc (js_to_string (addon_id_of (Some m))) = Inr (doc, Some (JObj []), Hidden)"
    using arr dn by (cases doc) (simp_all add: ensure_addon_def js_get_own js_get_def)
  have ups: "updates_of (Some (JObj [])) = Inr []" by (simp add: updates_of_def)
  show ?thesis
    using out id ens ups url
    by (simp add: merge_version_def handle_manifest_def lift_exc_def store_updates_def push_entry_def Let_def)
qed

theorem array_addons_entry_lost_witness:
  "merge_version (ex_config\<lparr>update_link := Some ''https://h/@version@''\<rparr>) (JObj [(''addons'', JArr [])])
     (Some ex_manifest) ''ab'' = Inr (JObj [(''addons'', JArr [])], [])"
proof (rule array_addons_entry_lost [where xs = "[]" and u = "''https://h/1.0.2''"])
  show "js_truthy (addon_id_of (Some ex_manifest))" by (simp add: ex_facts(2))
  show "resolve_url (update_link (ex_config\<lparr>update_link := Some ''https://h/@version@''\<rparr>)) None
          (prop_of (Some ex_manifest) ''version'') = Inr (''https://h/1.0.2'', [])"
    by (simp add: resolve_url_def js_eval)
qed simp_all

end
