(* ===== verification/Digest.thy ===== *)
theory Digest
  imports Prelude
begin

unbundle bit_operations_syntax

text \<open>
  \<^verbatim>\<open>Sha256FromFile\<close> (\<^verbatim>\<open>src/updater.js\<close> lines 169--182): a promise over a read
  stream of the archive that feeds every \<^verbatim>\<open>data\<close> chunk to a hash object, resolves
  with the hexadecimal digest on \<^verbatim>\<open>end\<close> and rejects on \<^verbatim>\<open>error\<close>. The hash
  object is Node's \<^verbatim>\<open>crypto\<close>, outside the repository: it is an interface, a record
  of an initial state, an update function and a finalisation, and the one law the
  streaming use relies on (updating with two chunks is updating with their
  concatenation) is a hypothesis of the theorems that need it.
\<close>

section \<open>The hash interface\<close>

record 's hash_iface =
  h_init :: 's
  h_update :: "'s \<Rightarrow> byte list \<Rightarrow> 's"
  h_final :: "'s \<Rightarrow> byte list"

definition streaming_hash :: "'s hash_iface \<Rightarrow> bool" where
  "streaming_hash H \<longleftrightarrow>
     (\<forall>s a b. h_update H (h_update H s a) b = h_update H s (a @ b)) \<and> (\<forall>s. h_update H s [] = s)"

section \<open>Hexadecimal output\<close>

text \<open>
  \<^verbatim>\<open>shasum.digest("hex")\<close>: two lower-case hexadecimal digits per byte, high nibble
  first (\<open>hex_lower\<close> is in the prelude).
\<close>

definition hex_of_bytes :: "byte list \<Rightarrow> string" where
  "hex_of_bytes bs = concat (map (\<lambda>b. [hex_lower (drop_bit 4 b), hex_lower (b AND 15)]) bs)"

section \<open>The stream and the promise\<close>

text \<open>The events of \<^verbatim>\<open>fs.ReadStream(path)\<close> the function listens to.\<close>

datatype read_event = RData "byte list" | REnd | RError

datatype digest_result = Digest_Hex string | Digest_Error

text \<open>
  The promise's outcome after a sequence of events: \<open>None\<close> while it is pending. The
  first \<^verbatim>\<open>end\<close> or \<^verbatim>\<open>error\<close> settles it; a promise settles once, so later
  events change nothing.
\<close>

fun sha256_stream :: "'s hash_iface \<Rightarrow> 's \<Rightarrow> read_event list \<Rightarrow> digest_result option" where
  "sha256_stream H s [] = None"
| "sha256_stream H s (RData d # evs) = sha256_stream H (h_update H s d) evs"
| "sha256_stream H s (REnd # evs) = Some (Digest_Hex (hex_of_bytes (h_final H s)))"
| "sha256_stream H s (RError # evs) = Some Digest_Error"

definition sha256_from_file :: "'s hash_iface \<Rightarrow> read_event list \<Rightarrow> digest_result option" where
  "sha256_from_file H evs = sha256_stream H (h_init H) evs"

text \<open>The digest of a whole file, as the specification (section 4.3) defines it.\<close>

definition file_digest :: "'s hash_iface \<Rightarrow> byte list \<Rightarrow> string" where
  "file_digest H content = hex_of_bytes (h_final H (h_update H (h_init H) content))"

section \<open>Lemmas\<close>

lemma sha256_stream_data:
  "streaming_hash H \<Longrightarrow>
   sha256_stream H s (map RData chunks @ evs) = sha256_stream H (h_update H s (concat chunks)) evs"
proof (induction chunks arbitrary: s)
  case Nil
  then show ?case by (simp add: streaming_hash_def)
next
  case (Cons c cs)
  then show ?case by (simp add: streaming_hash_def)
qed

lemma sha256_stream_settles_once:
  "sha256_stream H s evs = Some r \<Longrightarrow> sha256_stream H s (evs @ rest) = Some r"
  by (induction H s evs rule: sha256_stream.induct) auto

lemma sha256_stream_has_end:
  "\<exists>e \<in> set evs. e = REnd \<or> e = RError \<Longrightarrow> sha256_stream H s evs \<noteq> None"
  by (induction H s evs rule: sha256_stream.induct) auto

lemma hex_of_bytes_digits: "set (hex_of_bytes bs) \<subseteq> set ''0123456789abcdef''"
proof (induction bs)
  case Nil
  then show ?case by (simp add: hex_of_bytes_def)
next
  case (Cons b bs)
  have "hex_lower (drop_bit 4 b) \<in> set ''0123456789abcdef''"
  proof (rule hex_lower_digit)
    have "unat b < 16 * 16" using unsigned_less [of b] by simp
    then show "unat (drop_bit 4 b) < 16"
      by (simp add: unat_drop_bit_eq drop_bit_eq_div unat_div less_mult_imp_div_less)
  qed
  moreover have "hex_lower (b AND 15) \<in> set ''0123456789abcdef''"
  proof (rule hex_lower_digit)
    have "unat (b AND 15) \<le> unat (15::byte)"
      by (rule word_and_le1 [THEN word_le_nat_alt [THEN iffD1]])
    then show "unat (b AND 15) < 16" by simp
  qed
  ultimately show ?case using Cons.IH by (simp add: hex_of_bytes_def)
qed

lemma sha256_stream_hex:
  "sha256_stream H s evs = Some (Digest_Hex d) \<Longrightarrow> \<exists>s'. d = hex_of_bytes (h_final H s')"
  by (induction H s evs rule: sha256_stream.induct) auto

lemma sha256_stream_error:
  "sha256_stream H s (map RData chunks @ RError # rest) = Some Digest_Error"
  by (induction chunks arbitrary: s) simp_all

lemma length_hex_of_bytes [simp]: "length (hex_of_bytes bs) = 2 * length bs"
  by (induction bs) (simp_all add: hex_of_bytes_def)

lemmas digest_eval [js_eval] = sha256_from_file_def file_digest_def hex_of_bytes_def hex_lower_def

section \<open>Properties of the digest\<close>

text \<open>
  C18. Streaming refines hashing the whole file: however the read stream cuts the
  archive into \<^verbatim>\<open>data\<close> chunks, the promise resolves on \<^verbatim>\<open>end\<close> with the digest of the
  concatenated content, for every hash object whose update is streaming.
\<close>

theorem digest_stream_refines_file_digest:
  assumes "streaming_hash H"
  shows "sha256_from_file H (map RData chunks @ REnd # rest) =
           Some (Digest_Hex (file_digest H (concat chunks)))"
  using sha256_stream_data [OF assms] by (simp add: sha256_from_file_def file_digest_def)

theorem digest_stream_refines_file_digest_witness:
  "streaming_hash \<lparr>h_init = [], h_update = (@), h_final = \<lambda>s. s\<rparr> \<and>
   sha256_from_file \<lparr>h_init = [], h_update = (@), h_final = \<lambda>s. s\<rparr>
     (map RData [[1, 171], [2]] @ REnd # []) = Some (Digest_Hex ''01ab02'')"
proof
  show H: "streaming_hash \<lparr>h_init = [], h_update = (@), h_final = \<lambda>s. s\<rparr>"
    by (simp add: streaming_hash_def)
  show "sha256_from_file \<lparr>h_init = [], h_update = (@), h_final = \<lambda>s. s\<rparr>
          (map RData [[1, 171], [2]] @ REnd # []) = Some (Digest_Hex ''01ab02'')"
    using digest_stream_refines_file_digest [OF H, of "[[1, 171], [2]]" "[]"]
    by (simp add: file_digest_def hex_of_bytes_def hex_lower_def)
qed

text \<open>
  C19. A read error rejects the promise: whatever chunks were read before, an
  \<^verbatim>\<open>error\<close> event ahead of \<^verbatim>\<open>end\<close> settles it as a failure, and no partial digest is
  produced.
\<close>

theorem digest_error_rejects:
  "sha256_from_file H (map RData chunks @ RError # rest) = Some Digest_Error"
  by (simp add: sha256_from_file_def sha256_stream_error)

text \<open>
  C20. The digest string is lower-case hexadecimal of twice the hash length: for a
  hash whose output is 32 bytes (SHA-256) it is 64 characters of \<open>0-9a-f\<close>.
\<close>

theorem digest_hex_bounds:
  assumes "\<forall>s. length (h_final H s) = 32"
    and "sha256_from_file H evs = Some (Digest_Hex d)"
  shows "length d = 64 \<and> set d \<subseteq> set ''0123456789abcdef''"
proof -
  obtain s' where "d = hex_of_bytes (h_final H s')"
    using sha256_stream_hex [OF assms(2) [unfolded sha256_from_file_def]] by blast
  then show ?thesis using assms(1) hex_of_bytes_digits by simp
qed

theorem digest_hex_bounds_witness:
  "length (hex_of_bytes (replicate 32 0)) = 64 \<and>
   set (hex_of_bytes (replicate 32 0)) \<subseteq> set ''0123456789abcdef''"
  using digest_hex_bounds [of "\<lparr>h_init = (), h_update = \<lambda>s d. s, h_final = \<lambda>s. replicate 32 0\<rparr>"
      "[REnd]" "hex_of_bytes (replicate 32 0)"]
  by (simp add: sha256_from_file_def)

text \<open>
  C21. The promise settles as soon as the stream emits \<^verbatim>\<open>end\<close> or \<^verbatim>\<open>error\<close>, and once
  settled its outcome is not changed by any later event.
\<close>

theorem digest_settles:
  assumes "\<exists>e \<in> set evs. e = REnd \<or> e = RError"
  shows "\<exists>r. sha256_from_file H evs = Some r \<and>
             (\<forall>rest. sha256_from_file H (evs @ rest) = Some r)"
  using sha256_stream_has_end [OF assms] sha256_stream_settles_once
  by (fastforce simp: sha256_from_file_def)

theorem digest_settles_witness:
  "\<exists>r. sha256_from_file \<lparr>h_init = [], h_update = (@), h_final = \<lambda>s. s\<rparr> [RData [7], REnd] = Some r \<and>
       (\<forall>rest. sha256_from_file \<lparr>h_init = [], h_update = (@), h_final = \<lambda>s. s\<rparr>
                 ([RData [7], REnd] @ rest) = Some r)"
  by (rule digest_settles) simp

end
