(* ===== verification/Json.thy ===== *)
theory Json
  imports JsString Version
begin

unbundle bit_operations_syntax

text \<open>
  The text of the update manifest: \<^verbatim>\<open>JSON.stringify(update, null, 4)\<close>, which line 149
  writes, and \<^verbatim>\<open>JSON.parse\<close>, which line 68 applies to the file the next run reads.
  Both are JavaScript built-ins; they are modelled from ECMA-262
  (\<^verbatim>\<open>SerializeJSONProperty\<close>, \<^verbatim>\<open>QuoteJSONString\<close> and the JSON grammar) on the byte
  strings of this development. Numbers keep their text: \<open>JNum\<close> holds the text
  \<^verbatim>\<open>JSON.stringify\<close> prints, and the parser returns the text it reads, which is the
  same number whenever that text is in the canonical form the serialiser writes.
\<close>

section \<open>Serialisation\<close>

definition quote_char :: "char \<Rightarrow> string" where
  "quote_char c =
     (let n = (of_char c :: nat) in
      if n = 0x22 then [CHR 0x5C, CHR 0x22]
      else if n = 0x5C then [CHR 0x5C, CHR 0x5C]
      else if n = 0x08 then [CHR 0x5C, CHR ''b'']
      else if n = 0x0C then [CHR 0x5C, CHR ''f'']
      else if n = 0x0A then [CHR 0x5C, CHR ''n'']
      else if n = 0x0D then [CHR 0x5C, CHR ''r'']
      else if n = 0x09 then [CHR 0x5C, CHR ''t'']
      else if n < 0x20 then [CHR 0x5C, CHR ''u'', CHR ''0'', CHR ''0'',
                             hex_lower (drop_bit 4 (byte_of c)), hex_lower (byte_of c AND 15)]
      else [c])"

text \<open>\<^verbatim>\<open>QuoteJSONString\<close>.\<close>

definition quote_json :: "string \<Rightarrow> string" where
  "quote_json s = CHR 0x22 # concat (map quote_char s) @ [CHR 0x22]"

definition json_gap :: string where
  "json_gap = ''    ''"

text \<open>
  \<^verbatim>\<open>SerializeJSONProperty\<close> with the gap of four spaces, at indentation \<open>ind\<close>: an
  empty array or object is \<^verbatim>\<open>[]\<close> or \<^verbatim>\<open>{}\<close>; otherwise each element or member is on a
  line of its own, one gap deeper, and members are \<^verbatim>\<open>"key": value\<close>.
\<close>

fun json_text :: "string \<Rightarrow> json \<Rightarrow> string" where
  "json_text ind JNull = ''null''"
| "json_text ind (JBool b) = (if b then ''true'' else ''false'')"
| "json_text ind (JNum n) = n"
| "json_text ind (JStr s) = quote_json s"
| "json_text ind (JArr vs) =
     (if vs = [] then ''[]''
      else ''['' @ [CHR 0x0A] @ ind @ json_gap @
           join_with ([CHR '',''] @ [CHR 0x0A] @ ind @ json_gap) (map (json_text (ind @ json_gap)) vs) @
           [CHR 0x0A] @ ind @ '']'')"
| "json_text ind (JObj kvs) =
     (if kvs = [] then ''{}''
      else ''{'' @ [CHR 0x0A] @ ind @ json_gap @
           join_with ([CHR '',''] @ [CHR 0x0A] @ ind @ json_gap)
             (map (\<lambda>kv. quote_json (fst kv) @ '': '' @ json_text (ind @ json_gap) (snd kv)) kvs) @
           [CHR 0x0A] @ ind @ ''}'')"

definition json_stringify :: "json \<Rightarrow> string" where
  "json_stringify v = json_text [] v"

section \<open>Parsing\<close>

definition is_ws :: "char \<Rightarrow> bool" where
  "is_ws c = (of_char c \<in> {0x20, 0x09, 0x0A, 0x0D :: nat})"

definition skip_ws :: "string \<Rightarrow> string" where
  "skip_ws s = dropWhile is_ws s"

text \<open>The code point of four hexadecimal digits, and its UTF-8 bytes.\<close>

definition hex4 :: "char \<Rightarrow> char \<Rightarrow> char \<Rightarrow> char \<Rightarrow> nat option" where
  "hex4 a b c d =
     (case (hex_value a, hex_value b, hex_value c, hex_value d) of
        (Some w, Some x, Some y, Some z) \<Rightarrow> Some (((unat w * 16 + unat x) * 16 + unat y) * 16 + unat z)
      | _ \<Rightarrow> None)"

definition utf8_encode :: "nat \<Rightarrow> string" where
  "utf8_encode u =
     (if u < 0x80 then [char_of u]
      else if u < 0x800 then [char_of (0xC0 + u div 64), char_of (0x80 + u mod 64)]
      else if u < 0x10000 then
        [char_of (0xE0 + u div 4096), char_of (0x80 + u div 64 mod 64), char_of (0x80 + u mod 64)]
      else [char_of (0xF0 + u div 262144), char_of (0x80 + u div 4096 mod 64),
            char_of (0x80 + u div 64 mod 64), char_of (0x80 + u mod 64)])"

definition simple_escape :: "char \<Rightarrow> char option" where
  "simple_escape e =
     (if e = CHR 0x22 \<or> e = CHR 0x5C \<or> e = CHR ''/'' then Some e
      else if e = CHR ''b'' then Some (CHR 0x08)
      else if e = CHR ''f'' then Some (CHR 0x0C)
      else if e = CHR ''n'' then Some (CHR 0x0A)
      else if e = CHR ''r'' then Some (CHR 0x0D)
      else if e = CHR ''t'' then Some (CHR 0x09)
      else None)"

text \<open>
  The body of a string literal after its opening quote: the decoded bytes and the
  input after the closing quote. A surrogate pair of \<^verbatim>\<open>\u\<close> escapes is one code
  point; a lone surrogate, which a byte string cannot hold, is rejected.
\<close>

fun parse_str :: "string \<Rightarrow> (string \<times> string) option" where
  "parse_str [] = None"
| "parse_str (c # cs) =
     (if c = CHR 0x22 then Some ([], cs)
      else if c = CHR 0x5C then
        (case cs of
           [] \<Rightarrow> None
         | e # cs' \<Rightarrow>
             (case simple_escape e of
                Some d \<Rightarrow> map_option (apfst (Cons d)) (parse_str cs')
              | None \<Rightarrow>
                  (if e \<noteq> CHR ''u'' then None
                   else case cs' of
                     a # b # c' # d # r \<Rightarrow>
                       (case hex4 a b c' d of
                          None \<Rightarrow> None
                        | Some u \<Rightarrow>
                            (if u < 0xD800 \<or> 0xE000 \<le> u
                             then map_option (apfst (\<lambda>t. utf8_encode u @ t)) (parse_str r)
                             else if 0xDC00 \<le> u then None
                             else case r of
                               b1 # b2 # a2 # b' # c2 # d2 # r' \<Rightarrow>
                                 (if b1 = CHR 0x5C \<and> b2 = CHR ''u'' then
                                    (case hex4 a2 b' c2 d2 of
                                       Some l \<Rightarrow>
                                         (if 0xDC00 \<le> l \<and> l < 0xE000
                                          then map_option
                                                 (apfst (\<lambda>t. utf8_encode (0x10000 + (u - 0xD800) * 0x400 + (l - 0xDC00)) @ t))
                                                 (parse_str r')
                                          else None)
                                     | None \<Rightarrow> None)
                                  else None)
                             | _ \<Rightarrow> None))
                   | _ \<Rightarrow> None)))
      else if of_char c < (0x20::nat) then None
      else map_option (apfst (Cons c)) (parse_str cs))"

text \<open>
  A number token: the longest run of number characters, which must match
  \<^verbatim>\<open>-? (0 | [1-9][0-9]* ) (. [0-9]+)? ([eE] [+-]? [0-9]+)?\<close>. Since no character that may
  follow a number in JSON text is a number character, this accepts exactly the
  texts \<^verbatim>\<open>JSON.parse\<close> accepts.
\<close>

definition is_num_char :: "char \<Rightarrow> bool" where
  "is_num_char c = (is_digit c \<or> c \<in> {CHR ''-'', CHR ''+'', CHR ''.'', CHR ''e'', CHR ''E''})"

definition exp_ok :: "string \<Rightarrow> bool" where
  "exp_ok r =
     (case r of
        [] \<Rightarrow> True
      | e # r' \<Rightarrow>
          (e = CHR ''e'' \<or> e = CHR ''E'') \<and>
          (let ds = (case r' of s # x \<Rightarrow> if s = CHR ''+'' \<or> s = CHR ''-'' then x else r' | [] \<Rightarrow> [])
           in ds \<noteq> [] \<and> list_all is_digit ds))"

definition frac_exp_ok :: "string \<Rightarrow> bool" where
  "frac_exp_ok r =
     (case r of
        p # r' \<Rightarrow>
          (if p = CHR ''.'' then takeWhile is_digit r' \<noteq> [] \<and> exp_ok (dropWhile is_digit r')
           else exp_ok r)
      | [] \<Rightarrow> True)"

definition valid_number :: "string \<Rightarrow> bool" where
  "valid_number t =
     (let t1 = (case t of m # r \<Rightarrow> if m = CHR ''-'' then r else t | [] \<Rightarrow> [])
      in case t1 of
           [] \<Rightarrow> False
         | c # r \<Rightarrow>
             (if c = CHR ''0'' then frac_exp_ok r
              else is_digit c \<and> frac_exp_ok (dropWhile is_digit r)))"

definition parse_number :: "string \<Rightarrow> (string \<times> string) option" where
  "parse_number s =
     (let t = takeWhile is_num_char s in if valid_number t then Some (t, dropWhile is_num_char s) else None)"

text \<open>
  Values, array elements and object members, with fuel: every call consumes one unit.
  An object is built as \<^verbatim>\<open>JSON.parse\<close> builds it, a repeated key keeping its first
  position and its last value.
\<close>

fun parse_value :: "nat \<Rightarrow> string \<Rightarrow> (json \<times> string) option"
and parse_elems :: "nat \<Rightarrow> string \<Rightarrow> json list \<Rightarrow> (json \<times> string) option"
and parse_members :: "nat \<Rightarrow> string \<Rightarrow> (string \<times> json) list \<Rightarrow> (json \<times> string) option" where
  "parse_value 0 s = None"
| "parse_value (Suc n) s =
     (case skip_ws s of
        [] \<Rightarrow> None
      | c # r \<Rightarrow>
          (if c = CHR 0x22 then map_option (apfst JStr) (parse_str r)
           else if c = CHR ''['' then
             (let r1 = skip_ws r in
              if r1 \<noteq> [] \<and> hd r1 = CHR '']'' then Some (JArr [], tl r1) else parse_elems n r1 [])
           else if c = CHR ''{'' then
             (let r1 = skip_ws r in
              if r1 \<noteq> [] \<and> hd r1 = CHR ''}'' then Some (JObj [], tl r1) else parse_members n r1 [])
           else if take 3 r = ''ull'' \<and> c = CHR ''n'' then Some (JNull, drop 3 r)
           else if take 3 r = ''rue'' \<and> c = CHR ''t'' then Some (JBool True, drop 3 r)
           else if take 4 r = ''alse'' \<and> c = CHR ''f'' then Some (JBool False, drop 4 r)
           else map_option (apfst JNum) (parse_number (c # r))))"
| "parse_elems 0 s acc = None"
| "parse_elems (Suc n) s acc =
     (case parse_value n s of
        None \<Rightarrow> None
      | Some (v, r) \<Rightarrow>
          (let r1 = skip_ws r in
           if r1 \<noteq> [] \<and> hd r1 = CHR '','' then parse_elems n (tl r1) (acc @ [v])
           else if r1 \<noteq> [] \<and> hd r1 = CHR '']'' then Some (JArr (acc @ [v]), tl r1)
           else None))"
| "parse_members 0 s acc = None"
| "parse_members (Suc n) s acc =
     (let s1 = skip_ws s in
      if s1 = [] \<or> hd s1 \<noteq> CHR 0x22 then None
      else case parse_str (tl s1) of
        None \<Rightarrow> None
      | Some (k, r) \<Rightarrow>
          (let r1 = skip_ws r in
           if r1 = [] \<or> hd r1 \<noteq> CHR '':'' then None
           else case parse_value n (tl r1) of
             None \<Rightarrow> None
           | Some (v, r2) \<Rightarrow>
               (let r3 = skip_ws r2 in
                if r3 \<noteq> [] \<and> hd r3 = CHR '','' then parse_members n (tl r3) (alist_put acc k v)
                else if r3 \<noteq> [] \<and> hd r3 = CHR ''}'' then Some (JObj (alist_put acc k v), tl r3)
                else None)))"

text \<open>\<^verbatim>\<open>JSON.parse(text)\<close>: one value, surrounded by white space only.\<close>

definition json_parse_text :: "string \<Rightarrow> json option" where
  "json_parse_text s =
     (case parse_value (Suc (length s)) s of
        Some (v, r) \<Rightarrow> (if skip_ws r = [] then Some v else None)
      | None \<Rightarrow> None)"

text \<open>
  A well-formed document: its numbers are JSON number texts and no object repeats a
  key, which is what \<^verbatim>\<open>JSON.parse\<close> produces and what the serialiser needs to be
  read back unchanged.
\<close>

fun wf_json :: "json \<Rightarrow> bool" where
  "wf_json (JNum n) = valid_number n"
| "wf_json (JArr vs) = list_all wf_json vs"
| "wf_json (JObj kvs) = (distinct (map fst kvs) \<and> list_all (\<lambda>kv. wf_json (snd kv)) kvs)"
| "wf_json _ = True"

section \<open>The serialised text reads back\<close>

text \<open>
  \<open>value_rt v\<close>: the text of \<open>v\<close>, after white space and before any text that does not
  continue a number, parses back to \<open>v\<close> with any fuel larger than the text read.
  Each call of the parser spends one unit of fuel and, but for the call of a first
  array element, reads at least one character, so the fuel \<open>json_parse_text\<close> gives,
  the length of the input plus one, is enough.
\<close>

lemma hex_value_hex_lower: "unat d < 16 \<Longrightarrow> hex_value (hex_lower d) = Some d"
proof -
  assume lt: "unat d < 16"
  have all: "\<forall>i \<in> set [0..<16]. hex_value (''0123456789abcdef'' ! i) = Some (of_nat i)"
    by (simp add: hex_value_def upt_rec)
  from lt have "hex_value (''0123456789abcdef'' ! unat d) = Some (of_nat (unat d))"
    using all by simp
  then show ?thesis by (simp add: hex_lower_def)
qed

lemma unat_nibbles: "unat (drop_bit 4 b) * 16 + unat (b AND 15) = unat (b::byte)"
proof -
  have "unat (drop_bit 4 b) = unat b div 16" by (simp add: unat_drop_bit_eq drop_bit_eq_div unat_div)
  moreover have "unat (b AND 15) = unat b mod 16"
    by (simp add: and_15_take_bit unsigned_take_bit_eq take_bit_eq_mod unat_mod)
  ultimately show ?thesis by simp
qed

text \<open>Strings: each character is read back from its escape.\<close>

lemma char_by_code: "(of_char c :: nat) = of_char d \<Longrightarrow> c = d"
  by (rule of_char_eqI)

lemma parse_str_quote_char:
  "parse_str (quote_char c @ r) = map_option (apfst (Cons c)) (parse_str r)"
proof -
  let ?n = "of_char c :: nat"
  consider (q) "?n = 0x22" | (bs) "?n = 0x5C" | (b) "?n = 0x08" | (f) "?n = 0x0C" | (nl) "?n = 0x0A"
    | (cr) "?n = 0x0D" | (t) "?n = 0x09"
    | (u) "?n < 0x20" "?n \<noteq> 0x08" "?n \<noteq> 0x09" "?n \<noteq> 0x0A" "?n \<noteq> 0x0C" "?n \<noteq> 0x0D"
    | (plain) "0x20 \<le> ?n" "?n \<noteq> 0x22" "?n \<noteq> 0x5C"
    by linarith
  then show ?thesis
  proof cases
    case q
    then have "c = CHR 0x22" by (intro char_by_code) simp
    then show ?thesis by (simp add: quote_char_def simple_escape_def)
  next
    case bs
    then have "c = CHR 0x5C" by (intro char_by_code) simp
    then show ?thesis by (simp add: quote_char_def simple_escape_def)
  next
    case b
    then have "c = CHR 0x08" by (intro char_by_code) simp
    then show ?thesis by (simp add: quote_char_def simple_escape_def)
  next
    case f
    then have "c = CHR 0x0C" by (intro char_by_code) simp
    then show ?thesis by (simp add: quote_char_def simple_escape_def)
  next
    case nl
    then have "c = CHR 0x0A" by (intro char_by_code) simp
    then show ?thesis by (simp add: quote_char_def simple_escape_def)
  next
    case cr
    then have "c = CHR 0x0D" by (intro char_by_code) simp
    then show ?thesis by (simp add: quote_char_def simple_escape_def)
  next
    case t
    then have "c = CHR 0x09" by (intro char_by_code) simp
    then show ?thesis by (simp add: quote_char_def simple_escape_def)
  next
    case u
    let ?b = "byte_of c"
    have h: "hex4 (CHR ''0'') (CHR ''0'') (hex_lower (drop_bit 4 ?b)) (hex_lower (?b AND 15)) = Some ?n"
      using hex_value_hex_lower [OF unat_drop_bit_4_byte [of ?b]] hex_value_hex_lower [OF unat_and_15_byte [of ?b]]
        unat_nibbles [of ?b]
      by (simp add: hex4_def hex_value_def unat_byte_of)
    have e: "utf8_encode ?n = [c]" using u(1) by (simp add: utf8_encode_def)
    have q: "quote_char c = [CHR 0x5C, CHR ''u'', CHR ''0'', CHR ''0'',
                             hex_lower (drop_bit 4 ?b), hex_lower (?b AND 15)]"
      using u by (simp add: quote_char_def Let_def)
    have app: "(@) [c] = Cons c" by (rule ext) simp
    show ?thesis using h e u(1) by (simp add: q simple_escape_def app)
  next
    case plain
    have "c \<noteq> CHR 0x22" "c \<noteq> CHR 0x5C" using plain by auto
    moreover have "quote_char c = [c]" using plain by (simp add: quote_char_def Let_def)
    ultimately show ?thesis using plain(1) by simp
  qed
qed

lemma parse_str_quote: "parse_str (concat (map quote_char s) @ CHR 0x22 # r) = Some (s, r)"
  by (induction s) (simp_all add: parse_str_quote_char)


text \<open>Numbers: a number text is made of number characters and ends where they end.\<close>

lemma exp_ok_chars: "exp_ok r \<Longrightarrow> list_all is_num_char r"
  by (auto simp: exp_ok_def is_num_char_def list_all_iff Let_def split: list.splits if_splits)

lemma takeWhile_digits_num: "list_all is_num_char (takeWhile is_digit r)"
  by (auto simp: list_all_iff is_num_char_def dest: set_takeWhileD)

lemma frac_exp_ok_chars: "frac_exp_ok r \<Longrightarrow> list_all is_num_char r"
proof (cases r)
  case (Cons p r')
  assume ok: "frac_exp_ok r"
  show ?thesis
  proof (cases "p = CHR ''.''")
    case True
    then have "exp_ok (dropWhile is_digit r')" using ok Cons by (simp add: frac_exp_ok_def)
    then have "list_all is_num_char r'"
      by (metis takeWhile_dropWhile_id list_all_append exp_ok_chars takeWhile_digits_num)
    with True Cons show ?thesis by (simp add: is_num_char_def)
  next
    case False
    then show ?thesis using ok Cons exp_ok_chars [of r] by (simp add: frac_exp_ok_def)
  qed
qed simp

lemma valid_number_body_chars:
  assumes "(case t1 of [] \<Rightarrow> False
            | c # r \<Rightarrow> if c = CHR ''0'' then frac_exp_ok r else is_digit c \<and> frac_exp_ok (dropWhile is_digit r))"
  shows "list_all is_num_char t1"
proof (cases t1)
  case (Cons c r)
  show ?thesis
  proof (cases "c = CHR ''0''")
    case True
    then show ?thesis using assms Cons frac_exp_ok_chars [of r] by (simp add: is_num_char_def is_digit_def)
  next
    case False
    then have "is_digit c" "frac_exp_ok (dropWhile is_digit r)" using assms Cons by simp_all
    then have "list_all is_num_char r"
      by (metis takeWhile_dropWhile_id list_all_append frac_exp_ok_chars takeWhile_digits_num)
    with \<open>is_digit c\<close> Cons show ?thesis by (simp add: is_num_char_def)
  qed
qed (use assms in simp)

lemma valid_number_chars: "valid_number t \<Longrightarrow> list_all is_num_char t"
proof (cases t)
  case (Cons m r)
  assume "valid_number t"
  then show ?thesis using Cons valid_number_body_chars [of r] valid_number_body_chars [of t]
    by (auto simp: valid_number_def is_num_char_def split: if_splits)
qed (simp add: valid_number_def)

lemma valid_number_head:
  "valid_number t \<Longrightarrow> \<exists>c r. t = c # r \<and> (c = CHR ''-'' \<or> is_digit c)"
  by (cases t) (auto simp: valid_number_def is_digit_def split: list.splits if_splits)

lemma parse_number_append:
  assumes "valid_number t" and "rest = [] \<or> \<not> is_num_char (hd rest)"
  shows "parse_number (t @ rest) = Some (t, rest)"
proof -
  have t: "\<And>c. c \<in> set t \<Longrightarrow> is_num_char c" using valid_number_chars [OF assms(1)] by (simp add: list_all_iff)
  have "takeWhile is_num_char rest = []" "dropWhile is_num_char rest = rest"
    using assms(2) by (cases rest; auto)+
  then show ?thesis using assms(1) t by (simp add: parse_number_def takeWhile_append2 dropWhile_append2)
qed

lemma json_text_head:
  assumes "wf_json v"
  shows "\<exists>c t. json_text ind v = c # t \<and> \<not> is_ws c \<and> c \<noteq> CHR '']'' \<and> c \<noteq> CHR ''}''"
proof (cases v)
  case (JNum n)
  with assms have "valid_number n" by simp
  then obtain c r where n: "n = c # r" and c: "c = CHR ''-'' \<or> is_digit c"
    using valid_number_head by blast
  have "\<not> is_ws c \<and> c \<noteq> CHR '']'' \<and> c \<noteq> CHR ''}''"
    using c by (auto simp: is_ws_def is_digit_def Let_def)
  moreover have "json_text ind v = c # r" using JNum n by simp
  ultimately show ?thesis by blast
next
  case (JArr vs)
  then show ?thesis by (simp add: is_ws_def)
next
  case (JObj kvs)
  then show ?thesis by (simp add: is_ws_def)
next
  case JNull
  then show ?thesis by (simp add: is_ws_def)
next
  case (JBool b)
  then show ?thesis by (simp add: is_ws_def)
next
  case (JStr s)
  then show ?thesis by (simp add: is_ws_def quote_json_def)
qed

lemma skip_ws_ws: "list_all is_ws w \<Longrightarrow> skip_ws (w @ s) = skip_ws s"
  by (induction w) (simp_all add: skip_ws_def)

lemma skip_ws_Cons: "\<not> is_ws c \<Longrightarrow> skip_ws (c # s) = c # s"
  by (simp add: skip_ws_def)

lemma is_ws_chars: "is_ws (CHR 0x20)" "is_ws (CHR 0x0A)"
  by (simp_all add: is_ws_def)

lemma not_ws_chars:
  "\<not> is_ws (CHR '','')" "\<not> is_ws (CHR '']'')" "\<not> is_ws (CHR ''}'')" "\<not> is_ws (CHR '':'')"
  "\<not> is_ws (CHR 0x22)" "\<not> is_ws (CHR ''['')" "\<not> is_ws (CHR ''{'')"
  "\<not> is_ws (CHR ''n'')" "\<not> is_ws (CHR ''t'')" "\<not> is_ws (CHR ''f'')"
  by (simp_all add: is_ws_def)

lemma spaces_ws: "list_all (\<lambda>c. c = CHR 0x20) ind \<Longrightarrow> list_all is_ws ind"
  by (induction ind) (auto simp: is_ws_chars)

lemma gap_spaces: "list_all (\<lambda>c. c = CHR 0x20) json_gap"
  by (simp add: json_gap_def)

lemma skip_ws_close:
  "list_all (\<lambda>c. c = CHR 0x20) ind \<Longrightarrow> \<not> is_ws c \<Longrightarrow> skip_ws (CHR 0x0A # ind @ c # s) = c # s"
  using skip_ws_ws [of "CHR 0x0A # ind" "c # s"] spaces_ws [of ind] by (simp add: is_ws_chars skip_ws_Cons)

definition value_rt :: "json \<Rightarrow> bool" where
  "value_rt v \<longleftrightarrow>
     (\<forall>n w ind rest. list_all is_ws w \<longrightarrow> list_all (\<lambda>c. c = CHR 0x20) ind \<longrightarrow>
        (rest = [] \<or> \<not> is_num_char (hd rest)) \<longrightarrow> length (w @ json_text ind v) < n \<longrightarrow>
        parse_value n (w @ json_text ind v @ rest) = Some (v, rest))"

lemma value_rtD:
  "value_rt v \<Longrightarrow> list_all is_ws w \<Longrightarrow> list_all (\<lambda>c. c = CHR 0x20) ind \<Longrightarrow>
   rest = [] \<or> \<not> is_num_char (hd rest) \<Longrightarrow> length (w @ json_text ind v) < n \<Longrightarrow>
   parse_value n (w @ json_text ind v @ rest) = Some (v, rest)"
  unfolding value_rt_def by blast

lemma nl_not_num: "\<not> is_num_char (CHR 0x0A)" and comma_not_num: "\<not> is_num_char (CHR '','')"
  by (simp_all add: is_num_char_def is_digit_def)

lemma parse_elems_rt:
  assumes "list_all value_rt vs" "vs \<noteq> []" "list_all is_ws w" "list_all (\<lambda>c. c = CHR 0x20) ind"
    and "length (w @ join_with ([CHR '',''] @ [CHR 0x0A] @ ind @ json_gap) (map (json_text (ind @ json_gap)) vs)
                  @ [CHR 0x0A] @ ind @ '']'') < n"
  shows "parse_elems n (w @ join_with ([CHR '',''] @ [CHR 0x0A] @ ind @ json_gap) (map (json_text (ind @ json_gap)) vs)
                          @ [CHR 0x0A] @ ind @ '']'' @ rest) acc = Some (JArr (acc @ vs), rest)"
  using assms
proof (induction vs arbitrary: n w acc)
  case Nil
  then show ?case by simp
next
  case (Cons v vs)
  obtain m where n: "n = Suc m" using Cons.prems(5) by (cases n) auto
  have sp': "list_all (\<lambda>c. c = CHR 0x20) (ind @ json_gap)" using Cons.prems(4) gap_spaces by simp
  have vrt: "value_rt v" using Cons.prems(1) by simp
  show ?case
  proof (cases vs)
    case Nil
    let ?r = "[CHR 0x0A] @ ind @ '']'' @ rest"
    have pv: "parse_value m (w @ json_text (ind @ json_gap) v @ ?r) = Some (v, ?r)"
      by (rule value_rtD [OF vrt Cons.prems(3) sp']) (use Cons.prems(5) n Nil nl_not_num in simp_all)
    have "skip_ws ?r = CHR '']'' # rest"
      using skip_ws_close [OF Cons.prems(4)] not_ws_chars by simp
    with pv n Nil show ?thesis by simp
  next
    case (Cons v2 vs')
    let ?sep = "[CHR '',''] @ [CHR 0x0A] @ ind @ json_gap"
    let ?more = "join_with ?sep (map (json_text (ind @ json_gap)) vs) @ [CHR 0x0A] @ ind @ '']'' @ rest"
    have pv: "parse_value m (w @ json_text (ind @ json_gap) v @ ?sep @ ?more) = Some (v, ?sep @ ?more)"
      by (rule value_rtD [OF vrt Cons.prems(3) sp']) (use "Cons.prems"(5) n Cons comma_not_num in simp_all)
    have sk: "skip_ws (?sep @ ?more) = ?sep @ ?more" by (simp add: skip_ws_Cons not_ws_chars)
    have wsw: "list_all is_ws (CHR 0x0A # ind @ json_gap)"
      using spaces_ws [OF sp'] by (simp add: is_ws_chars)
    have ih: "parse_elems m ((CHR 0x0A # ind @ json_gap) @ join_with ?sep (map (json_text (ind @ json_gap)) vs)
                 @ [CHR 0x0A] @ ind @ '']'' @ rest) (acc @ [v]) = Some (JArr ((acc @ [v]) @ vs), rest)"
    proof (rule "Cons.IH" [OF _ _ wsw "Cons.prems"(4)])
      show "list_all value_rt vs" using "Cons.prems"(1) by simp
      show "vs \<noteq> []" using Cons by simp
      show "length ((CHR 0x0A # ind @ json_gap) @ join_with ?sep (map (json_text (ind @ json_gap)) vs)
                 @ [CHR 0x0A] @ ind @ '']'') < m"
        using "Cons.prems"(5) n Cons by simp
    qed
    show ?thesis using pv sk ih n Cons by simp
  qed
qed


lemma parse_members_rt:
  assumes "list_all (\<lambda>kv. value_rt (snd kv)) kvs" "kvs \<noteq> []" "list_all is_ws w"
    "list_all (\<lambda>c. c = CHR 0x20) ind" "distinct (map fst (acc @ kvs))"
    and "length (w @ join_with ([CHR '',''] @ [CHR 0x0A] @ ind @ json_gap)
                   (map (\<lambda>kv. quote_json (fst kv) @ '': '' @ json_text (ind @ json_gap) (snd kv)) kvs)
                  @ [CHR 0x0A] @ ind @ ''}'') < n"
  shows "parse_members n (w @ join_with ([CHR '',''] @ [CHR 0x0A] @ ind @ json_gap)
                   (map (\<lambda>kv. quote_json (fst kv) @ '': '' @ json_text (ind @ json_gap) (snd kv)) kvs)
                  @ [CHR 0x0A] @ ind @ ''}'' @ rest) acc = Some (JObj (acc @ kvs), rest)"
  using assms
proof (induction kvs arbitrary: n w acc)
  case Nil
  then show ?case by simp
next
  case (Cons kv kvs)
  obtain k v where kv: "kv = (k, v)" by (cases kv)
  obtain m where n: "n = Suc m" using Cons.prems(6) by (cases n) auto
  have sp': "list_all (\<lambda>c. c = CHR 0x20) (ind @ json_gap)" using Cons.prems(4) gap_spaces by simp
  have vrt: "value_rt v" using Cons.prems(1) kv by simp
  have put: "alist_put acc k v = acc @ [(k, v)]"
    using Cons.prems(5) kv by (intro alist_put_absent) auto
  let ?sep = "[CHR '',''] @ [CHR 0x0A] @ ind @ json_gap"
  let ?mem = "\<lambda>kv. quote_json (fst kv) @ '': '' @ json_text (ind @ json_gap) (snd kv)"
  let ?more = "(if kvs = [] then [] else ?sep @ join_with ?sep (map ?mem kvs)) @ [CHR 0x0A] @ ind @ ''}'' @ rest"
  have tx: "join_with ?sep (map ?mem (kv # kvs)) @ [CHR 0x0A] @ ind @ ''}'' @ rest =
             CHR 0x22 # concat (map quote_char k) @ CHR 0x22 # CHR '':'' # CHR 0x20 # json_text (ind @ json_gap) v @ ?more"
    by (cases kvs) (simp_all add: kv quote_json_def)
  have str: "parse_str (concat (map quote_char k) @ CHR 0x22 # CHR '':'' # CHR 0x20 # json_text (ind @ json_gap) v @ ?more) =
             Some (k, CHR '':'' # CHR 0x20 # json_text (ind @ json_gap) v @ ?more)"
    by (rule parse_str_quote)
  have pv: "parse_value m ([CHR 0x20] @ json_text (ind @ json_gap) v @ ?more) = Some (v, ?more)"
  proof (rule value_rtD [OF vrt _ sp'])
    show "list_all is_ws [CHR 0x20]" by (simp add: is_ws_chars)
    show "?more = [] \<or> \<not> is_num_char (hd ?more)" by (simp add: nl_not_num comma_not_num)
    show "length ([CHR 0x20] @ json_text (ind @ json_gap) v) < m"
      using Cons.prems(6) n by (cases kvs) (simp_all add: kv quote_json_def)
  qed
  show ?case
  proof (cases kvs)
    case Nil
    have "skip_ws ?more = CHR ''}'' # rest"
      using skip_ws_close [OF Cons.prems(4)] not_ws_chars Nil by simp
    then show ?thesis
      using skip_ws_ws [OF Cons.prems(3)] tx str pv put n Nil kv
      by (simp add: skip_ws_Cons not_ws_chars)
  next
    case (Cons kv2 kvs')
    have wsw: "list_all is_ws (CHR 0x0A # ind @ json_gap)"
      using spaces_ws [OF sp'] by (simp add: is_ws_chars)
    have ih: "parse_members m ((CHR 0x0A # ind @ json_gap) @ join_with ?sep (map ?mem kvs)
                 @ [CHR 0x0A] @ ind @ ''}'' @ rest) (acc @ [(k, v)]) = Some (JObj ((acc @ [(k, v)]) @ kvs), rest)"
    proof (rule "Cons.IH" [OF _ _ wsw "Cons.prems"(4)])
      show "list_all (\<lambda>kv. value_rt (snd kv)) kvs" using "Cons.prems"(1) by simp
      show "kvs \<noteq> []" using Cons by simp
      show "distinct (map fst ((acc @ [(k, v)]) @ kvs))" using "Cons.prems"(5) kv by simp
      show "length ((CHR 0x0A # ind @ json_gap) @ join_with ?sep (map ?mem kvs) @ [CHR 0x0A] @ ind @ ''}'') < m"
        using "Cons.prems"(6) n Cons by (simp add: kv)
    qed
    show ?thesis
      using skip_ws_ws [OF "Cons.prems"(3)] tx str pv put n Cons ih kv
      by (simp add: skip_ws_Cons not_ws_chars)
  qed
qed


lemma join_with_Cons: "join_with sep (x # xs) = x @ (if xs = [] then [] else sep @ join_with sep xs)"
  by (cases xs) simp_all

lemma skip_lead: "list_all is_ws w \<Longrightarrow> \<not> is_ws c \<Longrightarrow> skip_ws (w @ c # s) = c # s"
  using skip_ws_ws [of w "c # s"] by (simp add: skip_ws_Cons)

lemma wf_value_rt: "wf_json v \<Longrightarrow> value_rt v"
proof (induction v)
  case JNull
  show ?case unfolding value_rt_def
  proof (intro allI impI)
    fix n w ind rest assume w: "list_all is_ws w" and l: "length (w @ json_text ind JNull) < n"
    then obtain m where "n = Suc m" by (cases n) auto
    with skip_lead [OF w, of "CHR ''n''" "''ull'' @ rest"] show "parse_value n (w @ json_text ind JNull @ rest) = Some (JNull, rest)"
      by (simp add: not_ws_chars)
  qed
next
  case (JBool b)
  show ?case unfolding value_rt_def
  proof (intro allI impI)
    fix n w ind rest assume w: "list_all is_ws w" and l: "length (w @ json_text ind (JBool b)) < n"
    then obtain m where "n = Suc m" by (cases n) auto
    with skip_lead [OF w, of "CHR ''t''" "''rue'' @ rest"] skip_lead [OF w, of "CHR ''f''" "''alse'' @ rest"]
    show "parse_value n (w @ json_text ind (JBool b) @ rest) = Some (JBool b, rest)"
      by (cases b) (simp_all add: not_ws_chars)
  qed
next
  case (JNum t)
  then have t: "valid_number t" by simp
  then obtain c r where tc: "t = c # r" and c: "c = CHR ''-'' \<or> is_digit c" using valid_number_head by blast
  have nw: "\<not> is_ws c" "c \<noteq> CHR 0x22" "c \<noteq> CHR ''[''" "c \<noteq> CHR ''{''" "c \<noteq> CHR ''n''" "c \<noteq> CHR ''t''"
    "c \<noteq> CHR ''f''" using c by (auto simp: is_ws_def is_digit_def Let_def)
  show ?case unfolding value_rt_def
  proof (intro allI impI)
    fix n w ind rest assume w: "list_all is_ws w" and rs: "rest = [] \<or> \<not> is_num_char (hd rest)"
      and l: "length (w @ json_text ind (JNum t)) < n"
    then obtain m where "n = Suc m" by (cases n) auto
    with skip_lead [OF w nw(1), of "r @ rest"] parse_number_append [OF t rs] nw tc
    show "parse_value n (w @ json_text ind (JNum t) @ rest) = Some (JNum t, rest)"
      by simp
  qed
next
  case (JStr s)
  show ?case unfolding value_rt_def
  proof (intro allI impI)
    fix n w ind rest assume w: "list_all is_ws w" and l: "length (w @ json_text ind (JStr s)) < n"
    then obtain m where "n = Suc m" by (cases n) auto
    with skip_lead [OF w, of "CHR 0x22" "concat (map quote_char s) @ CHR 0x22 # rest"] parse_str_quote [of s rest]
    show "parse_value n (w @ json_text ind (JStr s) @ rest) = Some (JStr s, rest)"
      by (simp add: not_ws_chars quote_json_def)
  qed
next
  case (JArr vs)
  have vr: "list_all value_rt vs" using JArr by (simp add: list_all_iff)
  show ?case unfolding value_rt_def
  proof (intro allI impI)
    fix n w ind rest assume w: "list_all is_ws w" and sp: "list_all (\<lambda>c. c = CHR 0x20) ind"
      and l: "length (w @ json_text ind (JArr vs)) < n"
    then obtain m where n: "n = Suc m" by (cases n) auto
    show "parse_value n (w @ json_text ind (JArr vs) @ rest) = Some (JArr vs, rest)"
    proof (cases vs)
      case Nil
      with n skip_lead [OF w, of "CHR ''[''" "'']'' @ rest"] show ?thesis by (simp add: skip_ws_Cons not_ws_chars)
    next
      case (Cons v1 vs')
      have "wf_json v1" using JArr.prems Cons by simp
      then obtain c t where ct: "json_text (ind @ json_gap) v1 = c # t" and c: "\<not> is_ws c" "c \<noteq> CHR '']''"
        using json_text_head by blast
      let ?sep = "[CHR '',''] @ [CHR 0x0A] @ ind @ json_gap"
      let ?E = "join_with ?sep (map (json_text (ind @ json_gap)) vs) @ [CHR 0x0A] @ ind @ '']''"
      have ws': "list_all is_ws (CHR 0x0A # ind @ json_gap)"
        using spaces_ws [OF sp] spaces_ws [OF gap_spaces] by (simp add: is_ws_chars)
      have E: "?E @ rest = c # (t @ (if vs' = [] then [] else ?sep @ join_with ?sep (map (json_text (ind @ json_gap)) vs'))
                            @ [CHR 0x0A] @ ind @ '']'' @ rest)"
        using ct Cons by (cases vs') simp_all
      have sk: "skip_ws ((CHR 0x0A # ind @ json_gap) @ ?E @ rest) = ?E @ rest"
        using skip_lead [OF ws' c(1)] E by simp
      have pe: "parse_elems m ([] @ join_with ?sep (map (json_text (ind @ json_gap)) vs) @ [CHR 0x0A] @ ind @ '']'' @ rest) []
                  = Some (JArr ([] @ vs), rest)"
        by (rule parse_elems_rt) (use vr Cons sp l n in simp_all)
      show ?thesis
        using skip_lead [OF w, of "CHR ''[''" "(CHR 0x0A # ind @ json_gap) @ ?E @ rest"] sk pe n Cons E c(2)
        by (simp add: not_ws_chars)
    qed
  qed
next
  case (JObj kvs)
  have vr: "list_all (\<lambda>kv. value_rt (snd kv)) kvs"
    using JObj by (fastforce simp: list_all_iff)
  have d: "distinct (map fst kvs)" using JObj.prems by simp
  show ?case unfolding value_rt_def
  proof (intro allI impI)
    fix n w ind rest assume w: "list_all is_ws w" and sp: "list_all (\<lambda>c. c = CHR 0x20) ind"
      and l: "length (w @ json_text ind (JObj kvs)) < n"
    then obtain m where n: "n = Suc m" by (cases n) auto
    show "parse_value n (w @ json_text ind (JObj kvs) @ rest) = Some (JObj kvs, rest)"
    proof (cases kvs)
      case Nil
      with n skip_lead [OF w, of "CHR ''{''" "''}'' @ rest"] show ?thesis by (simp add: skip_ws_Cons not_ws_chars)
    next
      case (Cons kv1 kvs')
      let ?sep = "[CHR '',''] @ [CHR 0x0A] @ ind @ json_gap"
      let ?mem = "\<lambda>kv. quote_json (fst kv) @ '': '' @ json_text (ind @ json_gap) (snd kv)"
      let ?E = "join_with ?sep (map ?mem kvs) @ [CHR 0x0A] @ ind @ ''}''"
      have ws': "list_all is_ws (CHR 0x0A # ind @ json_gap)"
        using spaces_ws [OF sp] spaces_ws [OF gap_spaces] by (simp add: is_ws_chars)
      have E: "?E @ rest = CHR 0x22 # (tl (?E @ rest))"
        using Cons by (cases kvs') (simp_all add: quote_json_def)
      have sk: "skip_ws ((CHR 0x0A # ind @ json_gap) @ ?E @ rest) = ?E @ rest"
        using skip_lead [OF ws', of "CHR 0x22" "tl (?E @ rest)"] E not_ws_chars by simp
      have pm: "parse_members m ([] @ join_with ?sep (map ?mem kvs) @ [CHR 0x0A] @ ind @ ''}'' @ rest) []
                  = Some (JObj ([] @ kvs), rest)"
        by (rule parse_members_rt) (use vr Cons sp l n d in simp_all)
      show ?thesis
        using skip_lead [OF w, of "CHR ''{''" "(CHR 0x0A # ind @ json_gap) @ ?E @ rest"] sk pm n Cons
        by (simp add: not_ws_chars quote_json_def join_with_Cons Let_def)
    qed
  qed
qed

text \<open>
  What line 149 writes, the next run reads back (line 68): for every well-formed
  document, \<^verbatim>\<open>JSON.parse(JSON.stringify(update, null, 4))\<close> is the document itself.
\<close>

lemma json_roundtrip: "wf_json v \<Longrightarrow> json_parse_text (json_stringify v) = Some v"
  using value_rtD [OF wf_value_rt, of v "[]" "[]" "[]" "Suc (length (json_stringify v))"]
  by (simp add: json_parse_text_def json_stringify_def skip_ws_def)

section \<open>The fuel is enough\<close>

text \<open>
  Each parse reads at least one character, and a parse that succeeds with some fuel
  succeeds, with the same result, with any fuel at least the number of characters it
  reads.
\<close>

lemma skip_ws_le: "length (skip_ws s) \<le> length s"
  by (simp add: skip_ws_def length_dropWhile_le)

lemma parse_str_shorter: "parse_str s = Some (t, r) \<Longrightarrow> length r < length s"
proof (induction s arbitrary: t rule: parse_str.induct)
  case (2 c cs)
  then show ?case
    by (fastforce split: if_splits option.splits list.splits simp: apfst_def map_prod_def
        dest: less_SucI)
qed simp

lemma parse_number_shorter: "parse_number s = Some (t, r) \<Longrightarrow> length r < length s"
proof -
  assume p: "parse_number s = Some (t, r)"
  then have v: "valid_number (takeWhile is_num_char s)" and r: "r = dropWhile is_num_char s"
    by (auto simp: parse_number_def Let_def split: if_splits)
  from v have "takeWhile is_num_char s \<noteq> []" by (auto simp: valid_number_def)
  then obtain c s' where "s = c # s'" "is_num_char c" by (cases s) (auto split: if_splits)
  with r show ?thesis by (simp add: length_dropWhile_le le_imp_less_Suc)
qed


lemma parse_fuel:
  shows "parse_value n s = Some (v, r) \<Longrightarrow>
           length r < length s \<and> (\<forall>k. length s - length r \<le> k \<longrightarrow> parse_value k s = Some (v, r))"
    and "parse_elems n s acc = Some (v, r) \<Longrightarrow>
           length r < length s \<and> (\<forall>k. length s - length r \<le> k \<longrightarrow> parse_elems k s acc = Some (v, r))"
    and "parse_members n s kacc = Some (v, r) \<Longrightarrow>
           length r < length s \<and> (\<forall>k. length s - length r \<le> k \<longrightarrow> parse_members k s kacc = Some (v, r))"
proof (induction n s and n s acc and n s kacc arbitrary: v r and v r and v r
       rule: parse_value_parse_elems_parse_members.induct)
  case (2 n s)
  obtain c r0 where s0: "skip_ws s = c # r0"
    using "2.prems" by (cases "skip_ws s") auto
  have l0: "Suc (length r0) \<le> length s" using skip_ws_le [of s] s0 by simp
  let ?r1 = "skip_ws r0"
  have l1: "length ?r1 \<le> length r0" by (rule skip_ws_le)
  show ?case
  proof (cases "c = CHR 0x22 \<or> c = CHR ''['' \<or> c = CHR ''{''")
    case False
    then have eq: "\<And>k. parse_value (Suc k) s = parse_value (Suc n) s" using s0 by simp
    have "length r < length s"
      using "2.prems" s0 False parse_number_shorter [of "c # r0"] l0
      by (auto split: if_splits simp: apfst_def map_prod_def)
    moreover have "\<forall>k. length s - length r \<le> k \<longrightarrow> parse_value k s = Some (v, r)"
    proof (intro allI impI)
      fix k assume "length s - length r \<le> k"
      with \<open>length r < length s\<close> obtain k' where "k = Suc k'" by (cases k) auto
      then show "parse_value k s = Some (v, r)" using eq "2.prems" by simp
    qed
    ultimately show ?thesis ..
  next
    case True
    then consider (q) "c = CHR 0x22" | (a) "c = CHR ''[''" | (o) "c = CHR ''{''" by blast
    then show ?thesis
    proof cases
      case q
      then have eq: "\<And>k. parse_value (Suc k) s = map_option (apfst JStr) (parse_str r0)" using s0 by simp
      obtain t where "parse_str r0 = Some (t, r)" using "2.prems" eq by (auto simp: apfst_def map_prod_def)
      then have lr: "length r < length s" using parse_str_shorter l0 by fastforce
      show ?thesis
      proof (intro conjI allI impI lr)
        fix k assume "length s - length r \<le> k"
        with lr obtain k' where "k = Suc k'" by (cases k) auto
        then show "parse_value k s = Some (v, r)" using eq "2.prems" by simp
      qed
    next
      case a
      show ?thesis
      proof (cases "?r1 \<noteq> [] \<and> hd ?r1 = CHR '']''")
        case True
        then have eq: "\<And>k. parse_value (Suc k) s = Some (JArr [], tl ?r1)" using s0 a by simp
        then have vr: "v = JArr []" "r = tl ?r1" using "2.prems" by simp_all
        then have lr: "length r < length s" using l0 l1 True by (cases ?r1) auto
        show ?thesis
        proof (intro conjI allI impI lr)
          fix k assume "length s - length r \<le> k"
          with lr obtain k' where "k = Suc k'" by (cases k) auto
          then show "parse_value k s = Some (v, r)" using eq vr by simp
        qed
      next
        case False
        have eq: "\<And>k. parse_value (Suc k) s = parse_elems k ?r1 []" using s0 a False by (auto simp: Let_def)
        then have pe: "parse_elems n ?r1 [] = Some (v, r)" using "2.prems" by simp
        have ih: "length r < length ?r1 \<and> (\<forall>k. length ?r1 - length r \<le> k \<longrightarrow> parse_elems k ?r1 [] = Some (v, r))"
          using "2.IH"(1) [OF s0 _ a refl False pe] a by simp
        have lr: "length r < length s" using ih l0 l1 by simp
        show ?thesis
        proof (intro conjI allI impI lr)
          fix k assume k: "length s - length r \<le> k"
          with lr obtain k' where k': "k = Suc k'" by (cases k) auto
          have "length ?r1 - length r \<le> k'" using k k' l0 l1 by simp
          then show "parse_value k s = Some (v, r)" using eq ih k' by simp
        qed
      qed
    next
      case o
      show ?thesis
      proof (cases "?r1 \<noteq> [] \<and> hd ?r1 = CHR ''}''")
        case True
        then have eq: "\<And>k. parse_value (Suc k) s = Some (JObj [], tl ?r1)" using s0 o by simp
        then have vr: "v = JObj []" "r = tl ?r1" using "2.prems" by simp_all
        then have lr: "length r < length s" using l0 l1 True by (cases ?r1) auto
        show ?thesis
        proof (intro conjI allI impI lr)
          fix k assume "length s - length r \<le> k"
          with lr obtain k' where "k = Suc k'" by (cases k) auto
          then show "parse_value k s = Some (v, r)" using eq vr by simp
        qed
      next
        case False
        have eq: "\<And>k. parse_value (Suc k) s = parse_members k ?r1 []" using s0 o False by (auto simp: Let_def)
        then have pm: "parse_members n ?r1 [] = Some (v, r)" using "2.prems" by simp
        have ih: "length r < length ?r1 \<and> (\<forall>k. length ?r1 - length r \<le> k \<longrightarrow> parse_members k ?r1 [] = Some (v, r))"
          using "2.IH"(2) [OF s0 _ _ o refl False pm] o by simp
        have lr: "length r < length s" using ih l0 l1 by simp
        show ?thesis
        proof (intro conjI allI impI lr)
          fix k assume k: "length s - length r \<le> k"
          with lr obtain k' where k': "k = Suc k'" by (cases k) auto
          have "length ?r1 - length r \<le> k'" using k k' l0 l1 by simp
          then show "parse_value k s = Some (v, r)" using eq ih k' by simp
        qed
      qed
    qed
  qed
next
  case (1 s) then show ?case by simp
next
  case (3 s acc) then show ?case by simp
next
  case (4 n s acc)
  obtain x y where pv: "parse_value n s = Some (x, y)"
    using "4.prems" by (cases "parse_value n s") auto
  have ihv: "length y < length s \<and> (\<forall>k. length s - length y \<le> k \<longrightarrow> parse_value k s = Some (x, y))"
    by (rule "4.IH"(1) [OF pv])
  let ?r1 = "skip_ws y"
  have l1: "length ?r1 \<le> length y" by (rule skip_ws_le)
  have step: "\<And>k. parse_value k s = Some (x, y) \<Longrightarrow> parse_elems (Suc k) s acc =
      (if ?r1 \<noteq> [] \<and> hd ?r1 = CHR '','' then parse_elems k (tl ?r1) (acc @ [x])
       else if ?r1 \<noteq> [] \<and> hd ?r1 = CHR '']'' then Some (JArr (acc @ [x]), tl ?r1) else None)"
    by (simp add: Let_def)
  show ?case
  proof (cases "?r1 \<noteq> [] \<and> hd ?r1 = CHR '',''")
    case True
    then have pe: "parse_elems n (tl ?r1) (acc @ [x]) = Some (v, r)" using "4.prems" step [OF pv] by simp
    have ih: "length r < length (tl ?r1) \<and>
              (\<forall>k. length (tl ?r1) - length r \<le> k \<longrightarrow> parse_elems k (tl ?r1) (acc @ [x]) = Some (v, r))"
      by (rule "4.IH"(2) [OF pv refl refl True pe])
    have lt: "length (tl ?r1) < length y" using True l1 by (cases ?r1) auto
    have lr: "length r < length s" using ih lt ihv by simp
    show ?thesis
    proof (intro conjI allI impI lr)
      fix k assume k: "length s - length r \<le> k"
      with lr obtain k' where k': "k = Suc k'" by (cases k) auto
      have r: "length r < length (tl ?r1)" using ih by simp
      have "length s - length y \<le> k'" using r lt k k' by arith
      then have pv': "parse_value k' s = Some (x, y)" using ihv by simp
      have "length (tl ?r1) - length r \<le> k'" using r lt k k' ihv by arith
      then have pe': "parse_elems k' (tl ?r1) (acc @ [x]) = Some (v, r)" using ih by simp
      show "parse_elems k s acc = Some (v, r)" using step [OF pv'] True k' pe' by simp
    qed
  next
    case False
    then have c: "?r1 \<noteq> [] \<and> hd ?r1 = CHR '']''" and vr: "v = JArr (acc @ [x])" "r = tl ?r1"
      using "4.prems" step [OF pv] by (simp_all split: if_splits)
    have lr: "length r < length s" using ihv l1 c vr by (cases ?r1) auto
    show ?thesis
    proof (intro conjI allI impI lr)
      fix k assume k: "length s - length r \<le> k"
      with lr obtain k' where k': "k = Suc k'" by (cases k) auto
      have "length r < length y" using l1 c vr by (cases ?r1) auto
      then have "parse_value k' s = Some (x, y)" using ihv k k' by simp
      then show "parse_elems k s acc = Some (v, r)" using step False c vr k' by simp
    qed
  qed
next
  case (5 s kacc) then show ?case by simp
next
  case (6 n s kacc)
  let ?s1 = "skip_ws s"
  have h1: "\<not> (?s1 = [] \<or> hd ?s1 \<noteq> CHR 0x22)" using "6.prems" by (auto simp: Let_def split: if_split_asm)
  obtain key y0 where ps: "parse_str (tl ?s1) = Some (key, y0)"
    using "6.prems" h1 by (cases "parse_str (tl ?s1)") (auto simp: Let_def)
  let ?r1 = "skip_ws y0"
  have h2: "\<not> (?r1 = [] \<or> hd ?r1 \<noteq> CHR '':'')" using "6.prems" h1 ps by (auto simp: Let_def split: if_split_asm)
  obtain x y where pv: "parse_value n (tl ?r1) = Some (x, y)"
    using "6.prems" h1 ps h2 by (cases "parse_value n (tl ?r1)") (auto simp: Let_def)
  let ?r3 = "skip_ws y"
  have ihv: "length y < length (tl ?r1) \<and> (\<forall>k. length (tl ?r1) - length y \<le> k \<longrightarrow> parse_value k (tl ?r1) = Some (x, y))"
    by (rule "6.IH"(1) [OF refl h1 ps refl refl h2 pv])
  have step: "\<And>k. parse_value k (tl ?r1) = Some (x, y) \<Longrightarrow> parse_members (Suc k) s kacc =
      (if ?r3 \<noteq> [] \<and> hd ?r3 = CHR '','' then parse_members k (tl ?r3) (alist_put kacc key x)
       else if ?r3 \<noteq> [] \<and> hd ?r3 = CHR ''}'' then Some (JObj (alist_put kacc key x), tl ?r3) else None)"
    using h1 ps h2 by (simp add: Let_def)
  have l: "length (tl ?r1) < length s"
  proof -
    have "length y0 < length (tl ?s1)" using parse_str_shorter [OF ps] .
    moreover have "length (tl ?s1) < length s" using h1 skip_ws_le [of s] by (cases ?s1) auto
    moreover have "length (tl ?r1) < length y0" using h2 skip_ws_le [of y0] by (cases ?r1) auto
    ultimately show ?thesis by simp
  qed
  have l3: "length (skip_ws y) \<le> length y" by (rule skip_ws_le)
  show ?case
  proof (cases "?r3 \<noteq> [] \<and> hd ?r3 = CHR '',''")
    case True
    then have pm: "parse_members n (tl ?r3) (alist_put kacc key x) = Some (v, r)"
      using "6.prems" step [OF pv] by simp
    have ih: "length r < length (tl ?r3) \<and>
              (\<forall>k. length (tl ?r3) - length r \<le> k \<longrightarrow> parse_members k (tl ?r3) (alist_put kacc key x) = Some (v, r))"
      by (rule "6.IH"(2) [OF refl h1 ps refl refl h2 pv refl refl True pm])
    have lt: "length (tl ?r3) < length y" using True l3 by (cases ?r3) auto
    have r: "length r < length (tl ?r3)" using ih by simp
    have lr: "length r < length s" using r lt ihv l by simp
    show ?thesis
    proof (intro conjI allI impI lr)
      fix k assume k: "length s - length r \<le> k"
      with lr obtain k' where k': "k = Suc k'" by (cases k) auto
      have "length (tl ?r1) - length y \<le> k'" using r lt k k' l by arith
      then have pv': "parse_value k' (tl ?r1) = Some (x, y)" using ihv by simp
      have "length (tl ?r3) - length r \<le> k'" using r lt k k' ihv l by arith
      then have pm': "parse_members k' (tl ?r3) (alist_put kacc key x) = Some (v, r)" using ih by simp
      show "parse_members k s kacc = Some (v, r)" using step [OF pv'] True k' pm' by simp
    qed
  next
    case False
    then have c: "?r3 \<noteq> [] \<and> hd ?r3 = CHR ''}''" and vr: "v = JObj (alist_put kacc key x)" "r = tl ?r3"
      using "6.prems" step [OF pv] by (simp_all split: if_splits)
    have ry: "length r < length y" using l3 c vr by (cases ?r3) auto
    have lr: "length r < length s" using ry ihv l by simp
    show ?thesis
    proof (intro conjI allI impI lr)
      fix k assume k: "length s - length r \<le> k"
      with lr obtain k' where k': "k = Suc k'" by (cases k) auto
      have "length (tl ?r1) - length y \<le> k'" using ry k k' l by arith
      then have "parse_value k' (tl ?r1) = Some (x, y)" using ihv by simp
      then show "parse_members k s kacc = Some (v, r)" using step False c vr k' by simp
    qed
  qed
qed

text \<open>
  The fuel of \<open>json_parse_text\<close> never makes it fail: it accepts a text exactly
  when the parser accepts it with some amount of fuel, followed by white space only.
  So the model of \<^verbatim>\<open>JSON.parse\<close> is total in the sense that matters: it is the
  unbounded recursive-descent parse.
\<close>

lemma json_parse_fuel_enough:
  "json_parse_text s = Some v \<longleftrightarrow> (\<exists>n r. parse_value n s = Some (v, r) \<and> skip_ws r = [])"
proof
  assume j: "json_parse_text s = Some v"
  obtain r where "parse_value (Suc (length s)) s = Some (v, r)" "skip_ws r = []"
    using j by (cases "parse_value (Suc (length s)) s")
               (auto simp del: parse_value.simps simp: json_parse_text_def split: if_splits)
  then show "\<exists>n r. parse_value n s = Some (v, r) \<and> skip_ws r = []" by blast
next
  assume "\<exists>n r. parse_value n s = Some (v, r) \<and> skip_ws r = []"
  then obtain n r where p: "parse_value n s = Some (v, r)" and w: "skip_ws r = []" by blast
  have "length s - length r \<le> Suc (length s)" by simp
  then have "parse_value (Suc (length s)) s = Some (v, r)" using parse_fuel(1) [OF p] by blast
  with w show "json_parse_text s = Some v" by (simp add: json_parse_text_def)
qed


section \<open>What the parser produces\<close>

text \<open>
  Every number the parser accepts passed \<open>valid_number\<close>, and every object is built
  by \<open>alist_put\<close> from the empty one, so no key repeats.
\<close>

lemma parse_number_valid: "parse_number s = Some (t, r) \<Longrightarrow> valid_number t"
  by (simp add: parse_number_def Let_def split: if_splits)

lemma parse_wf:
  "parse_value n s = Some (v, r) \<Longrightarrow> wf_json v"
  "list_all wf_json acc \<Longrightarrow> parse_elems n s acc = Some (v, r) \<Longrightarrow> wf_json v"
  "distinct (map fst kvs) \<Longrightarrow> list_all (\<lambda>kv. wf_json (snd kv)) kvs \<Longrightarrow>
   parse_members n s kvs = Some (v, r) \<Longrightarrow> wf_json v"
proof (induction n s and n s acc and n s kvs arbitrary: v r and v r acc and v r kvs
       rule: parse_value_parse_elems_parse_members.induct)
  case (2 n s)
  note ih = "2.IH"(1) [where acc = "[]", simplified] "2.IH"(2) [where kvs = "[]", simplified]
  from "2.prems" show ?case
    by (auto simp: Let_def parse_number_valid intro: ih split: list.splits if_splits option.splits)
next
  case (4 n s acc)
  obtain a b where pv: "parse_value n s = Some (a, b)"
    using "4.prems"(2) by (auto split: option.splits)
  have "wf_json a" by (rule "4.IH"(1) [OF pv])
  then have acc: "list_all wf_json (acc @ [a])" using "4.prems"(1) by simp
  show ?case
  proof (cases "skip_ws b \<noteq> [] \<and> hd (skip_ws b) = CHR '',''")
    case True
    then have "parse_elems n (tl (skip_ws b)) (acc @ [a]) = Some (v, r)"
      using "4.prems"(2) pv by (simp add: Let_def)
    from "4.IH"(2) [OF pv refl refl True acc this] show ?thesis .
  next
    case False
    then show ?thesis using "4.prems"(2) pv acc by (auto simp: Let_def split: if_splits)
  qed
next
  case (6 n s kvs)
  define s1 where "s1 = skip_ws s"
  have h: "\<not> (s1 = [] \<or> hd s1 \<noteq> CHR 0x22)"
    using "6.prems"(3) by (auto simp: s1_def Let_def split: if_splits)
  obtain k r0 where ps: "parse_str (tl s1) = Some (k, r0)"
    using "6.prems"(3) h by (auto simp: s1_def split: option.splits)
  define r1 where "r1 = skip_ws r0"
  have h1: "\<not> (r1 = [] \<or> hd r1 \<noteq> CHR '':'')"
    using "6.prems"(3) h ps by (auto simp: s1_def r1_def Let_def split: if_splits)
  obtain a b where pv: "parse_value n (tl r1) = Some (a, b)"
    using "6.prems"(3) h ps h1 by (auto simp: s1_def r1_def Let_def split: option.splits)
  have "wf_json a" by (rule "6.IH"(1) [OF s1_def h ps refl r1_def h1 pv])
  then have d: "distinct (map fst (alist_put kvs k a))"
    and w: "list_all (\<lambda>kv. wf_json (snd kv)) (alist_put kvs k a)"
    using "6.prems"(1,2) by (simp_all add: list_all_alist_put)
  have e: "(let r3 = skip_ws b in
            if r3 \<noteq> [] \<and> hd r3 = CHR '','' then parse_members n (tl r3) (alist_put kvs k a)
            else if r3 \<noteq> [] \<and> hd r3 = CHR ''}'' then Some (JObj (alist_put kvs k a), tl r3)
            else None) = Some (v, r)"
    using "6.prems"(3) h ps h1 pv by (simp add: s1_def r1_def Let_def)
  show ?case
  proof (cases "skip_ws b \<noteq> [] \<and> hd (skip_ws b) = CHR '',''")
    case True
    then have "parse_members n (tl (skip_ws b)) (alist_put kvs k a) = Some (v, r)"
      using e by (simp add: Let_def)
    from "6.IH"(2) [OF s1_def h ps refl r1_def h1 pv refl refl True d w this] show ?thesis .
  next
    case False
    then show ?thesis using e d w by (auto simp: Let_def split: if_splits)
  qed
qed simp_all

text \<open>
  Whatever \<^verbatim>\<open>JSON.parse\<close> returns is a well-formed document: its numbers are
  JSON number texts and no object repeats a key (a repeated key of the text leaves one
  property, with its last value).
\<close>

lemma json_parse_wf: "pred_option wf_json (json_parse_text s)"
  by (cases "parse_value (Suc (length s)) s")
     (auto simp del: parse_value.simps simp: json_parse_text_def split: if_splits dest: parse_wf(1))

end
