(* ===== verification/Program.thy ===== *)
theory Program
  imports Merge Digest Json
begin

text \<open>
  The script as a whole (\<^verbatim>\<open>src/updater.js\<close> lines 43--99 and the callbacks of
  lines 138--160): the command line and its defaults, the loading of the update
  manifest, the archive scanner that calls \<^verbatim>\<open>HandleManifest\<close> for every
  \<^verbatim>\<open>manifest.json\<close> entry, and the event loop in which the digest callbacks run.
  The file system, the archive's events and the hash object are an environment record;
  \<^verbatim>\<open>JSON.parse\<close> and \<^verbatim>\<open>JSON.stringify\<close> are \<open>json_parse_text\<close> and
  \<open>json_stringify\<close> of \<open>Json\<close>. The event loop is an inductive step relation, and a
  deterministic scheduler of it is the sequential run.
\<close>

section \<open>The command line\<close>

text \<open>The values \<^verbatim>\<open>yargs\<close> gives the script: the positional arguments and the string options.\<close>

record cli =
  positional :: "string list"
  opt_update_in :: "string option"
  opt_update_out :: "string option"
  opt_update :: "string option"
  opt_update_link :: "string option"

text \<open>The environment: the file system, the unzip parser's events on the archive, and the
  read stream and hash object of \<^verbatim>\<open>Sha256FromFile\<close>.\<close>

datatype zip_event = ZEntry string "byte list list" | ZClose | ZError

record 's env =
  file_exists :: "string \<Rightarrow> bool"
  read_file :: "string \<Rightarrow> string option"
  write_ok :: "string \<Rightarrow> bool"
  zip_events :: "zip_event list"
  hasher :: "'s hash_iface"
  file_stream :: "read_event list"

text \<open>\<^verbatim>\<open>a || b\<close> on values that are strings or \<^verbatim>\<open>undefined\<close>; \<^verbatim>\<open>null\<close> is \<open>None\<close>.\<close>

definition js_or :: "string option \<Rightarrow> string option \<Rightarrow> string option" where
  "js_or a b = (if str_truthy a then a else b)"

text \<open>Lines 43--59: the usage check, the existence check of the archive and the option defaults.\<close>

definition start :: "cli \<Rightarrow> 's env \<Rightarrow> failure + config" where
  "start c E =
     (case positional c of
        [] \<Rightarrow> Inl Err_Usage
      | path # _ \<Rightarrow>
          (if \<not> file_exists E path then Inl (Err_FileMissing path)
           else Inr \<lparr>file_path = path,
                     update_in = js_or (js_or (opt_update_in c) (opt_update c)) None,
                     update_out = js_or (js_or (opt_update_out c) (opt_update c)) None,
                     update_link = opt_update_link c\<rparr>))"

section \<open>Loading the update manifest\<close>

text \<open>
  Lines 61--73: the default \<^verbatim>\<open>{addons:{}}\<close>, replaced by the parsed input file when
  \<^verbatim>\<open>statSync\<close>, \<^verbatim>\<open>readFileSync\<close> and \<^verbatim>\<open>JSON.parse\<close> all succeed; otherwise a warning.
  The parsed value need not be an object.
\<close>

definition empty_update :: json where
  "empty_update = JObj [(''addons'', JObj [])]"

definition load_update :: "'s env \<Rightarrow> config \<Rightarrow> json \<times> log list" where
  "load_update E cfg =
     (case update_in cfg of
        None \<Rightarrow> (empty_update, [])
      | Some p \<Rightarrow>
          (if p = [] then (empty_update, [])
           else
             (case (if file_exists E p then read_file E p else None) of
                None \<Rightarrow> (empty_update, [Warn_UpdateFileUnreadable p])
              | Some t \<Rightarrow>
                  (case json_parse_text t of
                     None \<Rightarrow> (empty_update, [Warn_UpdateFileUnreadable p])
                   | Some d \<Rightarrow> (d, [])))))"

section \<open>The state of a run\<close>

text \<open>
  The script's global variables and what the event loop holds: the unzip events
  still to come, the flags \<^verbatim>\<open>gotManifest\<close> and \<^verbatim>\<open>gotMozillaSign\<close>, the variable
  \<^verbatim>\<open>update\<close>, the digests in flight (one per handled manifest that reached line 138),
  the text last written to the output path, the messages, and the failure that
  ended the process, if any.
\<close>

record run_state =
  rs_zip :: "zip_event list"
  rs_got_manifest :: bool
  rs_got_sign :: bool
  rs_doc :: json
  rs_pending :: "pending list"
  rs_written :: "string option"
  rs_logs :: "log list"
  rs_exit :: "failure option"

text \<open>Line 86: \<^verbatim>\<open>HandleManifest(Buffer.concat(buffers).toString("utf8"))\<close> on the current \<^verbatim>\<open>update\<close>.\<close>

definition handle_step :: "config \<Rightarrow> 's env \<Rightarrow> string \<Rightarrow> run_state \<Rightarrow> run_state" where
  "handle_step cfg E text s =
     (case handle_manifest cfg (rs_doc s) (json_parse_text text) of
        Inl f \<Rightarrow> s\<lparr>rs_exit := Some f\<rparr>
      | Inr (doc', po, logs) \<Rightarrow>
          s\<lparr>rs_doc := doc',
            rs_pending := rs_pending s @ (case po of None \<Rightarrow> [] | Some p \<Rightarrow> [p]),
            rs_logs := rs_logs s @ logs\<rparr>)"

text \<open>
  Lines 77--99: one event of the unzip parser. A \<^verbatim>\<open>manifest.json\<close> entry is buffered
  and handed to the handler at its end; \<^verbatim>\<open>META-INF/mozilla.sf\<close> sets the flag; other
  entries are drained. \<^verbatim>\<open>close\<close> prints the two messages; an \<^verbatim>\<open>error\<close> has no listener
  and ends the process.
\<close>

definition zip_step :: "config \<Rightarrow> 's env \<Rightarrow> run_state \<Rightarrow> zip_event \<Rightarrow> run_state" where
  "zip_step cfg E s ev =
     (case ev of
        ZEntry path chunks \<Rightarrow>
          (if path = ''manifest.json''
           then handle_step cfg E (map char_of_byte (concat chunks)) (s\<lparr>rs_got_manifest := True\<rparr>)
           else if path = ''META-INF/mozilla.sf'' then s\<lparr>rs_got_sign := True\<rparr>
           else s)
      | ZClose \<Rightarrow>
          s\<lparr>rs_logs := rs_logs s @ (if rs_got_manifest s then [] else [Err_NoManifestInArchive (file_path cfg)])
                                 @ (if rs_got_sign s then [] else [Warn_Unsigned (file_path cfg)])\<rparr>
      | ZError \<Rightarrow> s\<lparr>rs_exit := Some Err_ArchiveCrash\<rparr>)"

text \<open>
  Lines 139--160: the callbacks of one digest promise, on the document as it is when
  they run: a rejection fails; otherwise the entry is pushed and the whole document
  written (line 146 tests the output path again).
\<close>

definition callback_step :: "config \<Rightarrow> 's env \<Rightarrow> digest_result \<Rightarrow> pending \<Rightarrow> run_state \<Rightarrow> run_state" where
  "callback_step cfg E d p s =
     (case d of
        Digest_Error \<Rightarrow> s\<lparr>rs_exit := Some Err_Hash\<rparr>
      | Digest_Hex h \<Rightarrow>
          (case push_entry (rs_doc s) p h of
             Inl f \<Rightarrow> s\<lparr>rs_exit := Some f\<rparr>
           | Inr doc' \<Rightarrow>
               (case update_out cfg of
                  Some out \<Rightarrow>
                    (if out = [] then s\<lparr>rs_doc := doc'\<rparr>
                     else if write_ok E out
                     then s\<lparr>rs_doc := doc', rs_written := Some (json_stringify doc'), rs_logs := rs_logs s @ [Info_Written out]\<rparr>
                     else s\<lparr>rs_doc := doc', rs_exit := Some (Err_Write out)\<rparr>)
                | None \<Rightarrow> s\<lparr>rs_doc := doc'\<rparr>)))"

section \<open>The event loop\<close>

text \<open>
  One turn of the event loop: the next unzip event, or the callbacks of any digest in
  flight once its promise has settled (every promise reads the same archive, so all
  settle the same way). After \<^verbatim>\<open>process.exit\<close> nothing runs.
\<close>

inductive run_step :: "config \<Rightarrow> 's env \<Rightarrow> run_state \<Rightarrow> run_state \<Rightarrow> bool" where
  zip_event:
    "rs_exit s = None \<Longrightarrow> rs_zip s = ev # evs \<Longrightarrow>
     run_step cfg E s (zip_step cfg E (s\<lparr>rs_zip := evs\<rparr>) ev)"
| digest_settled:
    "rs_exit s = None \<Longrightarrow> i < length (rs_pending s) \<Longrightarrow>
     sha256_from_file (hasher E) (file_stream E) = Some d \<Longrightarrow>
     run_step cfg E s (callback_step cfg E d (rs_pending s ! i)
                         (s\<lparr>rs_pending := take i (rs_pending s) @ drop (Suc i) (rs_pending s)\<rparr>))"

inductive_cases run_step_elim: "run_step cfg E s s'"

definition init_state :: "'s env \<Rightarrow> json \<Rightarrow> log list \<Rightarrow> run_state" where
  "init_state E doc logs =
     \<lparr>rs_zip = zip_events E, rs_got_manifest = False, rs_got_sign = False, rs_doc = doc,
      rs_pending = [], rs_written = None, rs_logs = logs, rs_exit = None\<rparr>"

text \<open>Everything up to line 75: a failure, or the configuration and the first state of the loop.\<close>

definition program_init :: "cli \<Rightarrow> 's env \<Rightarrow> failure + (config \<times> run_state)" where
  "program_init c E =
     (case start c E of
        Inl f \<Rightarrow> Inl f
      | Inr cfg \<Rightarrow> (case load_update E cfg of (doc, logs) \<Rightarrow> Inr (cfg, init_state E doc logs)))"

definition reachable :: "cli \<Rightarrow> 's env \<Rightarrow> run_state \<Rightarrow> bool" where
  "reachable c E s =
     (case program_init c E of Inl f \<Rightarrow> False | Inr (cfg, s0) \<Rightarrow> (run_step cfg E)\<^sup>*\<^sup>* s0 s)"

lemma rs_zip_handle_step [simp]: "rs_zip (handle_step cfg E t s) = rs_zip s"
  by (simp add: handle_step_def split: sum.splits prod.splits)

lemma rs_zip_zip_step [simp]: "rs_zip (zip_step cfg E s ev) = rs_zip s"
  by (simp add: zip_step_def split: zip_event.splits)

lemma rs_pending_callback_step [simp]: "rs_pending (callback_step cfg E d p s) = rs_pending s"
  by (simp add: callback_step_def split: digest_result.splits sum.splits option.splits)

section \<open>The sequential schedule\<close>

text \<open>
  The schedule of an archive read faster than it is hashed: every unzip event first,
  then the digest callbacks in the order the promises were created. Both loops end:
  each turn consumes an event or a promise.
\<close>

function run_zip :: "config \<Rightarrow> 's env \<Rightarrow> run_state \<Rightarrow> run_state" where
  "run_zip cfg E s =
     (if rs_exit s \<noteq> None then s
      else case rs_zip s of
             [] \<Rightarrow> s
           | ev # evs \<Rightarrow> run_zip cfg E (zip_step cfg E (s\<lparr>rs_zip := evs\<rparr>) ev))"
  by pat_completeness auto
termination
  by (relation "measure (\<lambda>(cfg, E, s). length (rs_zip s))") auto

function run_callbacks :: "config \<Rightarrow> 's env \<Rightarrow> run_state \<Rightarrow> run_state" where
  "run_callbacks cfg E s =
     (if rs_exit s \<noteq> None then s
      else case rs_pending s of
             [] \<Rightarrow> s
           | p # ps \<Rightarrow>
               (case sha256_from_file (hasher E) (file_stream E) of
                  None \<Rightarrow> s
                | Some d \<Rightarrow> run_callbacks cfg E (callback_step cfg E d p (s\<lparr>rs_pending := ps\<rparr>))))"
  by pat_completeness auto
termination
  by (relation "measure (\<lambda>(cfg, E, s). length (rs_pending s))") auto

declare run_zip.simps [simp del] run_callbacks.simps [simp del]

definition run_program :: "cli \<Rightarrow> 's env \<Rightarrow> failure + run_state" where
  "run_program c E =
     (case program_init c E of
        Inl f \<Rightarrow> Inl f
      | Inr (cfg, s0) \<Rightarrow> Inr (run_callbacks cfg E (run_zip cfg E s0)))"

lemma run_zip_path: "(run_step cfg E)\<^sup>*\<^sup>* s (run_zip cfg E s)"
proof (induction cfg E s rule: run_zip.induct)
  case (1 cfg E s)
  show ?case
  proof (cases "rs_exit s = None")
    case True
    show ?thesis
    proof (cases "rs_zip s")
      case Nil
      then show ?thesis by (simp add: run_zip.simps)
    next
      case (Cons ev evs)
      have "run_step cfg E s (zip_step cfg E (s\<lparr>rs_zip := evs\<rparr>) ev)"
        using True Cons by (rule run_step.zip_event)
      moreover have "(run_step cfg E)\<^sup>*\<^sup>* (zip_step cfg E (s\<lparr>rs_zip := evs\<rparr>) ev)
                       (run_zip cfg E (zip_step cfg E (s\<lparr>rs_zip := evs\<rparr>) ev))"
        using "1.IH" True Cons by simp
      ultimately show ?thesis using True Cons
        by (simp add: run_zip.simps [of cfg E s] converse_rtranclp_into_rtranclp)
    qed
  qed (simp add: run_zip.simps)
qed

lemma run_callbacks_path: "(run_step cfg E)\<^sup>*\<^sup>* s (run_callbacks cfg E s)"
proof (induction cfg E s rule: run_callbacks.induct)
  case (1 cfg E s)
  show ?case
  proof (cases "rs_exit s = None \<and> rs_pending s \<noteq> [] \<and> sha256_from_file (hasher E) (file_stream E) \<noteq> None")
    case True
    then obtain p ps d where ex: "rs_exit s = None" and pe: "rs_pending s = p # ps"
      and d: "sha256_from_file (hasher E) (file_stream E) = Some d"
      by (auto simp: neq_Nil_conv)
    have "run_step cfg E s (callback_step cfg E d (rs_pending s ! 0)
            (s\<lparr>rs_pending := take 0 (rs_pending s) @ drop (Suc 0) (rs_pending s)\<rparr>))"
      using ex d pe by (intro run_step.digest_settled) simp_all
    moreover have "(run_step cfg E)\<^sup>*\<^sup>* (callback_step cfg E d p (s\<lparr>rs_pending := ps\<rparr>))
                     (run_callbacks cfg E (callback_step cfg E d p (s\<lparr>rs_pending := ps\<rparr>)))"
      using "1.IH" ex pe d by simp
    ultimately show ?thesis using ex pe d
      by (simp add: run_callbacks.simps [of cfg E s] converse_rtranclp_into_rtranclp)
  next
    case False
    then show ?thesis by (auto simp: run_callbacks.simps [of cfg E s] split: list.splits option.splits)
  qed
qed

lemma run_program_reachable: "run_program c E = Inr s \<Longrightarrow> reachable c E s"
  by (auto simp: run_program_def reachable_def split: sum.splits prod.splits
           intro: rtranclp_trans [OF run_zip_path run_callbacks_path])

section \<open>Events that do not reach the handler\<close>

text \<open>An unzip event other than a \<^verbatim>\<open>manifest.json\<close> entry or an error.\<close>

definition quiet_event :: "zip_event \<Rightarrow> bool" where
  "quiet_event ev =
     (case ev of ZEntry path chunks \<Rightarrow> path \<noteq> ''manifest.json'' | ZClose \<Rightarrow> True | ZError \<Rightarrow> False)"

lemma zip_step_quiet:
  assumes "quiet_event ev"
  shows "rs_doc (zip_step cfg E s ev) = rs_doc s \<and> rs_pending (zip_step cfg E s ev) = rs_pending s \<and>
         rs_written (zip_step cfg E s ev) = rs_written s \<and> rs_exit (zip_step cfg E s ev) = rs_exit s \<and>
         rs_got_manifest (zip_step cfg E s ev) = rs_got_manifest s \<and>
         set (rs_logs s) \<subseteq> set (rs_logs (zip_step cfg E s ev))"
  using assms by (auto simp: quiet_event_def zip_step_def split: zip_event.splits)

lemma zip_step_close:
  "\<not> rs_got_manifest s \<Longrightarrow> Err_NoManifestInArchive (file_path cfg) \<in> set (rs_logs (zip_step cfg E s ZClose))"
  by (simp add: zip_step_def)

lemma run_zip_done: "rs_zip s = [] \<Longrightarrow> run_zip cfg E s = s"
  by (simp add: run_zip.simps)

lemma run_callbacks_done: "rs_pending s = [] \<Longrightarrow> run_callbacks cfg E s = s"
  by (simp add: run_callbacks.simps)

text \<open>A run of quiet events changes only the flags and the messages.\<close>

lemma run_zip_quiet:
  assumes "rs_zip s = evs @ rest" "list_all quiet_event evs" "rs_exit s = None"
  shows "\<exists>s'. run_zip cfg E s = run_zip cfg E s' \<and> rs_zip s' = rest \<and> rs_doc s' = rs_doc s \<and>
              rs_pending s' = rs_pending s \<and> rs_written s' = rs_written s \<and> rs_exit s' = None \<and>
              rs_got_manifest s' = rs_got_manifest s \<and> set (rs_logs s) \<subseteq> set (rs_logs s') \<and>
              (ZClose \<in> set evs \<and> \<not> rs_got_manifest s \<longrightarrow> Err_NoManifestInArchive (file_path cfg) \<in> set (rs_logs s'))"
  using assms
proof (induction evs arbitrary: s)
  case Nil
  then show ?case by (intro exI [of _ s]) simp
next
  case (Cons ev evs)
  let ?t = "zip_step cfg E (s\<lparr>rs_zip := evs @ rest\<rparr>) ev"
  have q: "quiet_event ev" and qs: "list_all quiet_event evs" using Cons.prems(2) by simp_all
  have t: "rs_doc ?t = rs_doc s" "rs_pending ?t = rs_pending s" "rs_written ?t = rs_written s"
    "rs_exit ?t = None" "rs_got_manifest ?t = rs_got_manifest s" "set (rs_logs s) \<subseteq> set (rs_logs ?t)"
    using zip_step_quiet [OF q, of cfg E "s\<lparr>rs_zip := evs @ rest\<rparr>"] Cons.prems(3) by simp_all
  have step: "run_zip cfg E s = run_zip cfg E ?t"
    using Cons.prems(1,3) by (simp add: run_zip.simps [of cfg E s])
  have cl: "ev = ZClose \<and> \<not> rs_got_manifest s \<Longrightarrow> Err_NoManifestInArchive (file_path cfg) \<in> set (rs_logs ?t)"
    using zip_step_close [of "s\<lparr>rs_zip := evs @ rest\<rparr>" cfg E] by auto
  obtain s' where s': "run_zip cfg E ?t = run_zip cfg E s'" "rs_zip s' = rest" "rs_doc s' = rs_doc ?t"
    "rs_pending s' = rs_pending ?t" "rs_written s' = rs_written ?t" "rs_exit s' = None"
    "rs_got_manifest s' = rs_got_manifest ?t" and lg: "set (rs_logs ?t) \<subseteq> set (rs_logs s')"
    and lc: "ZClose \<in> set evs \<and> \<not> rs_got_manifest ?t \<longrightarrow> Err_NoManifestInArchive (file_path cfg) \<in> set (rs_logs s')"
    using Cons.IH [OF _ qs, of ?t] t(4) by auto
  have "ZClose \<in> set (ev # evs) \<and> \<not> rs_got_manifest s \<longrightarrow> Err_NoManifestInArchive (file_path cfg) \<in> set (rs_logs s')"
    using cl lc lg t(5) by auto
  with s' t(1-6) step lg show ?case by (intro exI [of _ s']) auto
qed

section \<open>One manifest through the handler and the callback\<close>

lemma handle_manifest_pending:
  "str_truthy (update_out cfg) \<Longrightarrow> handle_manifest cfg doc parsed \<noteq> Inr (d, None, l)"
  by (auto simp: handle_manifest_def Let_def split: option.splits sum.splits prod.splits)

lemma merge_version_handle:
  assumes "str_truthy (update_out cfg)" and "merge_version cfg doc parsed h = Inr (doc', logs)"
  shows "\<exists>doc1 p. handle_manifest cfg doc parsed = Inr (doc1, Some p, logs) \<and> push_entry doc1 p h = Inr doc'"
  using assms handle_manifest_pending [OF assms(1), of doc parsed]
  by (auto simp: merge_version_def split: sum.splits prod.splits option.splits)

lemma program_init_start:
  "program_init c E = Inr (cfg, s0) \<longleftrightarrow>
   start c E = Inr cfg \<and> s0 = init_state E (fst (load_update E cfg)) (snd (load_update E cfg))"
  by (auto simp: program_init_def split: sum.splits prod.splits)

lemma quiet_inv_step:
  assumes "run_step cfg E t t'"
    and "rs_exit t = None \<and> rs_written t = None \<and> rs_pending t = [] \<and> list_all quiet_event (rs_zip t)"
  shows "rs_exit t' = None \<and> rs_written t' = None \<and> rs_pending t' = [] \<and> list_all quiet_event (rs_zip t')"
  using assms(1)
proof (cases rule: run_step.cases)
  case (zip_event ev evs)
  with assms(2) have "quiet_event ev" "list_all quiet_event evs" by simp_all
  with zip_event assms(2) show ?thesis
    using zip_step_quiet [of ev cfg E "t\<lparr>rs_zip := evs\<rparr>"] by simp
next
  case (digest_settled i d)
  with assms(2) show ?thesis by simp
qed

lemma reachable_path:
  "reachable c E s \<Longrightarrow>
   \<exists>cfg. start c E = Inr cfg \<and>
         (run_step cfg E)\<^sup>*\<^sup>* (init_state E (fst (load_update E cfg)) (snd (load_update E cfg))) s"
  by (auto simp: reachable_def program_init_def split: sum.splits prod.splits)

lemma run_program_eq:
  "start c E = Inr cfg \<Longrightarrow>
   run_program c E = Inr (run_callbacks cfg E (run_zip cfg E
                           (init_state E (fst (load_update E cfg)) (snd (load_update E cfg)))))"
  by (simp add: run_program_def program_init_def split: prod.splits)

section \<open>One manifest in the sequential run\<close>

text \<open>
  The sequential run of an archive with one \<^verbatim>\<open>manifest.json\<close> entry whose digest
  resolves: the handler's messages are printed, and the callback writes the merge's
  document and reports it last, or fails to write it.
\<close>

lemma single_manifest_run:
  assumes st: "start c E = Inr cfg"
    and zip: "zip_events E = pre @ ZEntry ''manifest.json'' chunks # post"
    and q: "list_all quiet_event pre" "list_all quiet_event post"
    and dig: "sha256_from_file (hasher E) (file_stream E) = Some (Digest_Hex h)"
    and out: "update_out cfg = Some out" "out \<noteq> []"
    and mg: "merge_version cfg (fst (load_update E cfg))
               (json_parse_text (map char_of_byte (concat chunks))) h = Inr (doc', logs)"
  shows "\<exists>s. run_program c E = Inr s \<and> set logs \<subseteq> set (rs_logs s) \<and>
             (if write_ok E out
              then rs_exit s = None \<and> rs_written s = Some (json_stringify doc') \<and> (\<exists>ls. rs_logs s = ls @ [Info_Written out])
              else rs_exit s = Some (Err_Write out) \<and> rs_written s = None)"
proof -
  let ?s0 = "init_state E (fst (load_update E cfg)) (snd (load_update E cfg))"
  let ?text = "map char_of_byte (concat chunks)"
  obtain doc1 p where hm: "handle_manifest cfg (fst (load_update E cfg)) (json_parse_text ?text) = Inr (doc1, Some p, logs)"
    and pe: "push_entry doc1 p h = Inr doc'"
    using merge_version_handle [OF _ mg] out(1,2) by auto
  obtain s1 where s1: "run_zip cfg E ?s0 = run_zip cfg E s1" "rs_zip s1 = ZEntry ''manifest.json'' chunks # post"
    "rs_doc s1 = fst (load_update E cfg)" "rs_pending s1 = []" "rs_exit s1 = None" "rs_written s1 = None"
    using run_zip_quiet [of ?s0 pre "ZEntry ''manifest.json'' chunks # post" cfg E] zip q(1)
    by (auto simp: init_state_def)
  let ?s2 = "zip_step cfg E (s1\<lparr>rs_zip := post\<rparr>) (ZEntry ''manifest.json'' chunks)"
  have s2: "rs_zip ?s2 = post" "rs_doc ?s2 = doc1" "rs_pending ?s2 = [p]" "rs_exit ?s2 = None"
    "rs_written ?s2 = None" "set logs \<subseteq> set (rs_logs ?s2)"
    using hm s1(3-6) by (simp_all add: zip_step_def handle_step_def)
  have "run_zip cfg E s1 = run_zip cfg E ?s2"
    using s1(2,5) by (simp add: run_zip.simps [of cfg E s1])
  moreover obtain s3 where s3: "run_zip cfg E ?s2 = run_zip cfg E s3" "rs_zip s3 = []"
    "rs_doc s3 = doc1" "rs_pending s3 = [p]" "rs_exit s3 = None" "rs_written s3 = None"
    and l3: "set (rs_logs ?s2) \<subseteq> set (rs_logs s3)"
    using run_zip_quiet [of ?s2 post "[]" cfg E] s2 q(2) by auto
  ultimately have z: "run_zip cfg E ?s0 = s3" using s1(1) run_zip_done [OF s3(2), of cfg E] by simp
  let ?s4 = "callback_step cfg E (Digest_Hex h) p (s3\<lparr>rs_pending := []\<rparr>)"
  have s4: "rs_pending ?s4 = []" "set (rs_logs s3) \<subseteq> set (rs_logs ?s4)"
    "if write_ok E out
     then rs_exit ?s4 = None \<and> rs_written ?s4 = Some (json_stringify doc') \<and> (\<exists>ls. rs_logs ?s4 = ls @ [Info_Written out])
     else rs_exit ?s4 = Some (Err_Write out) \<and> rs_written ?s4 = None"
    using pe out s3(3,5,6) by (auto simp: callback_step_def)
  have "run_callbacks cfg E s3 = ?s4"
    using s3(4,5) dig run_callbacks_done [OF s4(1), of cfg E] by (simp add: run_callbacks.simps [of cfg E s3])
  with z s4 s2(6) l3 run_program_eq [OF st] show ?thesis by (intro exI [of _ ?s4]) auto
qed

section \<open>Two manifests in one archive\<close>

text \<open>
  The sequential run of an archive whose first two entries are \<^verbatim>\<open>manifest.json\<close>:
  both handlers run on the document as the unzip events leave it, and only then the
  two callbacks push their entries, the second on the document the first wrote.
\<close>

lemma two_manifest_run:
  assumes st: "start c E = Inr cfg"
    and zip: "zip_events E = ZEntry ''manifest.json'' chunks # ZEntry ''manifest.json'' chunks # post"
    and q: "list_all quiet_event post"
    and dig: "sha256_from_file (hasher E) (file_stream E) = Some (Digest_Hex h)"
    and out: "update_out cfg = Some out" "out \<noteq> []" "write_ok E out"
    and hm1: "handle_manifest cfg (fst (load_update E cfg)) (json_parse_text (map char_of_byte (concat chunks))) =
                Inr (doc1, Some p1, l1)"
    and hm2: "handle_manifest cfg doc1 (json_parse_text (map char_of_byte (concat chunks))) =
                Inr (doc2, Some p2, l2)"
    and pe: "push_entry doc2 p1 h = Inr doc3" "push_entry doc3 p2 h = Inr doc4"
  shows "\<exists>s. run_program c E = Inr s \<and> rs_exit s = None \<and> rs_written s = Some (json_stringify doc4)"
proof -
  let ?s0 = "init_state E (fst (load_update E cfg)) (snd (load_update E cfg))"
  let ?ev = "ZEntry ''manifest.json'' chunks"
  let ?s1 = "zip_step cfg E (?s0\<lparr>rs_zip := ?ev # post\<rparr>) ?ev"
  have s1: "rs_zip ?s1 = ?ev # post" "rs_doc ?s1 = doc1" "rs_pending ?s1 = [p1]" "rs_exit ?s1 = None"
    using hm1 by (simp_all add: zip_step_def handle_step_def init_state_def)
  let ?s2 = "zip_step cfg E (?s1\<lparr>rs_zip := post\<rparr>) ?ev"
  have s2: "rs_zip ?s2 = post" "rs_doc ?s2 = doc2" "rs_pending ?s2 = [p1, p2]" "rs_exit ?s2 = None"
    using hm2 s1 by (simp_all add: zip_step_def handle_step_def)
  have s0: "rs_zip ?s0 = ?ev # ?ev # post" "rs_exit ?s0 = None"
    using zip by (simp_all add: init_state_def)
  have "run_zip cfg E ?s0 = run_zip cfg E ?s1"
    using s0 by (simp add: run_zip.simps [of cfg E ?s0])
  also have "\<dots> = run_zip cfg E ?s2"
    using s1(1,4) by (simp add: run_zip.simps [of cfg E ?s1])
  finally have "run_zip cfg E ?s0 = run_zip cfg E ?s2" .
  moreover obtain s3 where s3: "run_zip cfg E ?s2 = run_zip cfg E s3" "rs_zip s3 = []"
    "rs_doc s3 = doc2" "rs_pending s3 = [p1, p2]" "rs_exit s3 = None"
    using run_zip_quiet [of ?s2 post "[]" cfg E] s2 q by auto
  ultimately have z: "run_zip cfg E ?s0 = s3" using run_zip_done [OF s3(2), of cfg E] by simp
  let ?s4 = "callback_step cfg E (Digest_Hex h) p1 (s3\<lparr>rs_pending := [p2]\<rparr>)"
  have s4: "rs_pending ?s4 = [p2]" "rs_doc ?s4 = doc3" "rs_exit ?s4 = None"
    using pe(1) out s3(3,5) by (simp_all add: callback_step_def)
  let ?s5 = "callback_step cfg E (Digest_Hex h) p2 (?s4\<lparr>rs_pending := []\<rparr>)"
  have s5: "rs_pending ?s5 = []" "rs_exit ?s5 = None" "rs_written ?s5 = Some (json_stringify doc4)"
    using pe(2) out s4(2,3) by (simp_all add: callback_step_def)
  have "run_callbacks cfg E s3 = ?s5"
    using s3(4,5) s4(1,3) dig run_callbacks_done [OF s5(1), of cfg E]
    by (simp add: run_callbacks.simps [of cfg E s3] run_callbacks.simps [of cfg E ?s4])
  with z s5 run_program_eq [OF st] show ?thesis by auto
qed

section \<open>Every schedule with one manifest\<close>

text \<open>
  The invariant of the event loop for an archive with one \<^verbatim>\<open>manifest.json\<close>
  entry: anything written is the merge's document for the settled digest; before the
  entry nothing has changed; after it, at most the one digest of the handler is in flight.
\<close>

definition single_inv ::
  "config \<Rightarrow> 's env \<Rightarrow> json \<Rightarrow> byte list list \<Rightarrow> zip_event list \<Rightarrow> run_state \<Rightarrow> bool" where
  "single_inv cfg E doc0 chunks post t =
     ((case rs_written t of
         None \<Rightarrow> True
       | Some t \<Rightarrow> \<exists>h d lg. sha256_from_file (hasher E) (file_stream E) = Some (Digest_Hex h) \<and>
                         merge_version cfg doc0 (json_parse_text (map char_of_byte (concat chunks))) h = Inr (d, lg) \<and>
                         t = json_stringify d) \<and>
      (rs_exit t = None \<longrightarrow>
         (\<exists>pre'. rs_zip t = pre' @ ZEntry ''manifest.json'' chunks # post \<and> list_all quiet_event pre' \<and>
                 rs_doc t = doc0 \<and> rs_pending t = [] \<and> rs_written t = None) \<or>
         (list_all quiet_event (rs_zip t) \<and>
            (rs_pending t = [] \<or>
             (\<exists>doc1 p lg. handle_manifest cfg doc0 (json_parse_text (map char_of_byte (concat chunks))) =
                            Inr (doc1, Some p, lg) \<and>
                          rs_pending t = [p] \<and> rs_doc t = doc1 \<and> rs_written t = None)))))"

lemma handle_manifest_some_out:
  "handle_manifest cfg doc parsed = Inr (d, Some p, l) \<Longrightarrow> str_truthy (update_out cfg)"
  by (auto simp: handle_manifest_def split: option.splits if_splits)

lemma single_inv_callback:
  assumes h: "handle_manifest cfg doc0 (json_parse_text (map char_of_byte (concat chunks))) = Inr (doc1, Some p, lg)"
    and t: "rs_doc t = doc1" "rs_written t = None" "rs_pending t = []" "list_all quiet_event (rs_zip t)"
    and d: "sha256_from_file (hasher E) (file_stream E) = Some d"
  shows "single_inv cfg E doc0 chunks post (callback_step cfg E d p t)"
proof -
  obtain out where out: "update_out cfg = Some out" "out \<noteq> []"
    using handle_manifest_some_out [OF h] by (cases "update_out cfg") auto
  show ?thesis
  proof (cases d)
    case (Digest_Hex hx)
    show ?thesis
    proof (cases "push_entry doc1 p hx")
      case (Inr d')
      have "merge_version cfg doc0 (json_parse_text (map char_of_byte (concat chunks))) hx = Inr (d', lg)"
        using h Inr by (simp add: merge_version_def)
      then show ?thesis using Inr Digest_Hex d t out
        by (auto simp: single_inv_def callback_step_def)
    qed (use Digest_Hex t in \<open>simp add: single_inv_def callback_step_def\<close>)
  qed (use t in \<open>simp add: single_inv_def callback_step_def\<close>)
qed

lemma rs_written_zip_step: "rs_written (zip_step cfg E s ev) = rs_written s"
  by (simp add: zip_step_def handle_step_def split: zip_event.splits sum.splits prod.splits)

lemma single_inv_manifest:
  assumes t: "rs_doc t = doc0" "rs_pending t = []" "rs_written t = None" and q: "list_all quiet_event post"
  shows "single_inv cfg E doc0 chunks post
           (zip_step cfg E (t\<lparr>rs_zip := post\<rparr>) (ZEntry ''manifest.json'' chunks))"
proof (cases "handle_manifest cfg doc0 (json_parse_text (map char_of_byte (concat chunks)))")
  case (Inr r)
  then obtain doc1 po lg where r: "r = (doc1, po, lg)" by (cases r) auto
  show ?thesis using Inr r t q
    by (cases po) (auto simp: single_inv_def zip_step_def handle_step_def)
qed (use t in \<open>simp add: single_inv_def zip_step_def handle_step_def\<close>)

lemma single_inv_step:
  assumes step: "run_step cfg E t t'" and inv: "single_inv cfg E doc0 chunks post t"
    and q: "list_all quiet_event post"
  shows "single_inv cfg E doc0 chunks post t'"
  using step
proof (cases rule: run_step.cases)
  case (zip_event ev evs)
  have w: "rs_written t' = rs_written t" using zip_event(1) by (simp add: rs_written_zip_step)
  from inv zip_event(2) consider
      (pre) pre' where "rs_zip t = pre' @ ZEntry ''manifest.json'' chunks # post" "list_all quiet_event pre'"
        "rs_doc t = doc0" "rs_pending t = []" "rs_written t = None"
    | (post) "list_all quiet_event (rs_zip t)"
        "rs_pending t = [] \<or>
         (\<exists>doc1 p lg. handle_manifest cfg doc0 (json_parse_text (map char_of_byte (concat chunks))) =
                       Inr (doc1, Some p, lg) \<and> rs_pending t = [p] \<and> rs_doc t = doc1 \<and> rs_written t = None)"
    unfolding single_inv_def by blast
  then show ?thesis
  proof cases
    case (pre pre')
    show ?thesis
    proof (cases pre')
      case Nil
      with pre zip_event show ?thesis using single_inv_manifest [OF pre(3-5) q] by simp
    next
      case (Cons e pre'')
      with pre zip_event have qe: "quiet_event ev" and ev: "evs = pre'' @ ZEntry ''manifest.json'' chunks # post"
        by auto
      show ?thesis using zip_step_quiet [OF qe, of cfg E "t\<lparr>rs_zip := evs\<rparr>"] zip_event pre Cons ev
        by (auto simp: single_inv_def)
    qed
  next
    case post
    with zip_event have qe: "quiet_event ev" "list_all quiet_event evs" by simp_all
    show ?thesis using zip_step_quiet [OF qe(1), of cfg E "t\<lparr>rs_zip := evs\<rparr>"] zip_event post qe(2) inv
      by (auto simp: single_inv_def)
  qed
next
  case (digest_settled i d)
  with inv obtain doc1 p lg where h: "handle_manifest cfg doc0 (json_parse_text (map char_of_byte (concat chunks))) =
        Inr (doc1, Some p, lg)" and t: "rs_pending t = [p]" "rs_doc t = doc1" "rs_written t = None"
      "list_all quiet_event (rs_zip t)"
    unfolding single_inv_def by auto
  with digest_settled show ?thesis
    using single_inv_callback [OF h, where t = "t\<lparr>rs_pending := []\<rparr>" and E = E and d = d and post = post] by simp
qed

section \<open>Example runs\<close>

abbreviation ex_addon_manifest :: json where
  "ex_addon_manifest \<equiv> JObj [(''applications'', JObj [(''gecko'', JObj [(''id'', JStr ''ext@x'')])]),
                              (''version'', JStr ''1.0'')]"

text \<open>The text of that manifest, as the archive's \<^verbatim>\<open>manifest.json\<close> entry holds it.\<close>

abbreviation ex_manifest_text :: string where
  \<open>ex_manifest_text \<equiv> ''{"applications":{"gecko":{"id":"ext@x"}},"version":"1.0"}''\<close>

abbreviation ex_manifest_entry :: zip_event where
  "ex_manifest_entry \<equiv> ZEntry ''manifest.json'' [map byte_of ex_manifest_text]"

abbreviation ex_cli :: cli where
  "ex_cli \<equiv> \<lparr>positional = [''a.xpi''], opt_update_in = None, opt_update_out = None,
             opt_update = Some ''u.json'', opt_update_link = Some ''https://h/@version@''\<rparr>"

abbreviation ex_hasher :: "byte list hash_iface" where
  "ex_hasher \<equiv> \<lparr>h_init = [], h_update = (@), h_final = \<lambda>s. s\<rparr>"

text \<open>An environment with the given unzip events: \<^verbatim>\<open>u.json\<close> does not exist yet.\<close>

abbreviation ex_env :: "zip_event list \<Rightarrow> byte list env" where
  "ex_env evs \<equiv> \<lparr>file_exists = \<lambda>p. p = ''a.xpi'', read_file = \<lambda>p. None,
                 write_ok = \<lambda>p. True,
                 zip_events = evs, hasher = ex_hasher, file_stream = [RData [171], REnd]\<rparr>"

lemma ex_manifest_parse: "json_parse_text ex_manifest_text = Some ex_addon_manifest"
  by code_simp

section \<open>Properties of the program\<close>

text \<open>
  C24. An input path that does not exist, cannot be read or does not parse as JSON
  does not stop the run: the update manifest starts as \<^verbatim>\<open>{addons:{}}\<close> and one
  warning is printed.
\<close>

theorem unreadable_update_defaults:
  assumes "update_in cfg = Some p" and "p \<noteq> []"
    and "\<not> file_exists E p \<or> read_file E p = None \<or> (\<exists>t. read_file E p = Some t \<and> json_parse_text t = None)"
  shows "load_update E cfg = (empty_update, [Warn_UpdateFileUnreadable p])"
  using assms by (auto simp: load_update_def)

theorem unreadable_update_defaults_witness:
  "load_update (ex_env []) \<lparr>file_path = ''a.xpi'', update_in = Some ''u.json'', update_out = None,
                            update_link = None\<rparr> = (empty_update, [Warn_UpdateFileUnreadable ''u.json''])"
  by (rule unreadable_update_defaults [where p = "''u.json''"]) simp_all

text \<open>
  C25. An archive with no \<^verbatim>\<open>manifest.json\<close> entry (and no unzip error) never makes
  the process fail and nothing is written, under every schedule of the event loop:
  no digest is ever requested.
\<close>

theorem no_manifest_never_fails:
  assumes "list_all quiet_event (zip_events E)" and "reachable c E s"
  shows "rs_exit s = None \<and> rs_written s = None \<and> rs_pending s = []"
proof -
  obtain cfg where path: "(run_step cfg E)\<^sup>*\<^sup>* (init_state E (fst (load_update E cfg)) (snd (load_update E cfg))) s"
    using reachable_path [OF assms(2)] by blast
  have "rs_exit s = None \<and> rs_written s = None \<and> rs_pending s = [] \<and> list_all quiet_event (rs_zip s)"
    using path
  proof (induction rule: rtranclp_induct)
    case base
    then show ?case using assms(1) by (simp add: init_state_def)
  next
    case (step t t')
    show ?case by (rule quiet_inv_step [OF step.hyps(2) step.IH])
  qed
  then show ?thesis by simp
qed

theorem no_manifest_never_fails_witness:
  "rs_exit (init_state (ex_env [ZEntry ''icon.png'' [], ZClose]) empty_update [Warn_UpdateFileUnreadable ''u.json'']) = None \<and>
   rs_written (init_state (ex_env [ZEntry ''icon.png'' [], ZClose]) empty_update [Warn_UpdateFileUnreadable ''u.json'']) = None"
proof -
  have "reachable ex_cli (ex_env [ZEntry ''icon.png'' [], ZClose])
          (init_state (ex_env [ZEntry ''icon.png'' [], ZClose]) empty_update [Warn_UpdateFileUnreadable ''u.json''])"
    by (simp add: reachable_def program_init_def start_def load_update_def js_or_def)
  from no_manifest_never_fails [OF _ this] show ?thesis by (simp add: quiet_event_def)
qed

text \<open>
  With no \<^verbatim>\<open>manifest.json\<close> in the archive the sequential run ends without a
  failure and without a write, having logged the error of line 96.
\<close>

lemma run_no_manifest:
  assumes q: "list_all quiet_event (zip_events E)" and cl: "ZClose \<in> set (zip_events E)"
    and run: "run_program c E = Inr s"
  shows "rs_exit s = None \<and> rs_written s = None \<and>
         Err_NoManifestInArchive (hd (positional c)) \<in> set (rs_logs s)"
proof -
  obtain cfg where st: "start c E = Inr cfg"
    using run by (auto simp: run_program_def program_init_def split: sum.splits)
  have fp: "file_path cfg = hd (positional c)"
    using st by (auto simp: start_def split: list.splits if_splits)
  let ?s0 = "init_state E (fst (load_update E cfg)) (snd (load_update E cfg))"
  obtain s' where s': "run_zip cfg E ?s0 = run_zip cfg E s'" "rs_zip s' = []" "rs_pending s' = []"
    "rs_written s' = None" "rs_exit s' = None" "Err_NoManifestInArchive (file_path cfg) \<in> set (rs_logs s')"
    using run_zip_quiet [of ?s0 "zip_events E" "[]" cfg E] q cl by (auto simp: init_state_def)
  have "s = s'"
    using run run_program_eq [OF st] s'(1) run_zip_done [OF s'(2), of cfg E]
      run_callbacks_done [OF s'(3), of cfg E] by simp
  with s' fp show ?thesis by simp
qed

text \<open>
  C32. When the archive cannot be hashed (the read stream emits \<^verbatim>\<open>error\<close>), no
  update file is ever written, under every schedule of the event loop: every
  callback that runs takes the rejection branch of line 157.
\<close>

theorem digest_error_writes_nothing:
  assumes r: "reachable c E s" and dig: "sha256_from_file (hasher E) (file_stream E) = Some Digest_Error"
  shows "rs_written s = None"
proof -
  from reachable_path [OF r] obtain cfg where
    path: "(run_step cfg E)\<^sup>*\<^sup>* (init_state E (fst (load_update E cfg)) (snd (load_update E cfg))) s"
    by blast
  then show ?thesis
  proof (induction rule: rtranclp_induct)
    case base
    then show ?case by (simp add: init_state_def)
  next
    case (step t t')
    from step.hyps(2) show ?case
    proof (cases rule: run_step.cases)
      case (zip_event ev evs)
      with step.IH show ?thesis by (simp add: rs_written_zip_step)
    next
      case (digest_settled i d)
      with dig step.IH show ?thesis by (simp add: callback_step_def)
    qed
  qed
qed

theorem digest_error_writes_nothing_witness:
  "rs_written (projr (run_program ex_cli ((ex_env [ex_manifest_entry, ZClose])\<lparr>file_stream := [RError]\<rparr>))) = None"
proof -
  let ?E = "(ex_env [ex_manifest_entry, ZClose])\<lparr>file_stream := [RError]\<rparr>"
  have "run_program ex_cli ?E = Inr (projr (run_program ex_cli ?E))" by code_simp
  then have r: "reachable ex_cli ?E (projr (run_program ex_cli ?E))" by (rule run_program_reachable)
  have d: "sha256_from_file (hasher ?E) (file_stream ?E) = Some Digest_Error"
    by (simp add: sha256_from_file_def)
  show ?thesis by (rule digest_error_writes_nothing [OF r d])
qed

text \<open>
  C27. The merge is not atomic: the handler filters the entries, and the entry is
  pushed later by the digest's callback. When the archive's first two entries are the
  same \<^verbatim>\<open>manifest.json\<close>, both handlers run before either digest settles, neither
  filter sees the other's entry, and the document written holds the new version twice,
  after the entries of other versions, whatever the add-on's record held before.
\<close>

theorem duplicate_manifest_race:
  assumes st: "start c E = Inr cfg"
    and zip: "zip_events E = ZEntry ''manifest.json'' chunks # ZEntry ''manifest.json'' chunks # post"
    and q: "list_all quiet_event post"
    and dig: "sha256_from_file (hasher E) (file_stream E) = Some (Digest_Hex h)"
    and out: "update_out cfg = Some out" "out \<noteq> []" "write_ok E out"
    and link: "str_truthy (update_link cfg)"
    and m: "json_parse_text (map char_of_byte (concat chunks)) = Some m"
    and id: "addon_id_of (Some m) = Some (JStr key)" "key \<noteq> []"
    and ver: "prop_of (Some m) ''version'' = Some (JStr v)"
    and doc: "own_prop (fst (load_update E cfg)) ''addons'' = Some (JObj akvs)"
    and rec: "map_of akvs key = None \<and> xs = [] \<or>
              map_of akvs key = Some (JObj rkvs) \<and> map_of rkvs ''updates'' = Some (JArr xs)"
    and wf: "list_all wf_entry xs"
  shows "\<exists>s D e1 e2. run_program c E = Inr s \<and> rs_exit s = None \<and> rs_written s = Some (json_stringify D) \<and>
           record_updates D key = Some (filter (\<lambda>e. \<not> same_version (Some (JStr v)) e) xs @ [e1, e2]) \<and>
           own_prop e1 ''version'' = Some (JStr v) \<and> own_prop e2 ''version'' = Some (JStr v)"
proof -
  let ?doc0 = "fst (load_update E cfg)"
  let ?mv = "prop_of (Some m) ''version''"
  let ?kept = "filter (\<lambda>e. \<not> same_version ?mv e) xs"
  have o: "str_truthy (update_out cfg)" using out by simp
  obtain doc1 akvs1 rk where ens: "ensure_addon ?doc0 key = Inr (doc1, Some (JObj rk), Visible)"
    and d1: "own_prop doc1 ''addons'' = Some (JObj akvs1)" and ups: "updates_of (Some (JObj rk)) = Inr xs"
    using rec
  proof
    assume "map_of akvs key = None \<and> xs = []"
    then show thesis
      using that [OF ensure_addon_new [OF doc] own_prop_set_record [OF doc]] by (simp add: updates_of_def)
  next
    assume "map_of akvs key = Some (JObj rkvs) \<and> map_of rkvs ''updates'' = Some (JArr xs)"
    then show thesis
      using that [OF ensure_addon_existing [OF doc] doc] by (simp add: updates_of_def)
  qed
  define u where "u = js_replace (the (update_link cfg)) ''@version@'' (encode_uri_component (js_to_string ?mv))"
  have url: "resolve_url (update_link cfg) None ?mv = Inr (u, [])"
    using link by (simp add: resolve_url_def u_def)
  have hm1: "handle_manifest cfg ?doc0 (Some m) =
               Inr (set_record doc1 key (JObj (alist_put rk ''updates'' (JArr ?kept))),
                    Some \<lparr>pend_key = key, pend_mode = Visible, pend_last = latest xs, pend_version = ?mv, pend_url = u\<rparr>,
                    dup_warnings ?mv xs @ [])"
    by (rule handle_manifest_visible_eq [OF o id ens ups wf trans [OF resolve_url_template [OF link] url]])
  note hm2 = handle_manifest_again [OF o link id d1 wf refl url, of rk]
  let ?e1 = "new_entry (latest xs) ?mv h u" and ?e2 = "new_entry (latest ?kept) ?mv h u"
  note pe1 = push_entry_visible [OF d1, of key rk ?kept "latest xs" ?mv u h]
  note pe2 = push_entry_visible [OF d1, of key rk "?kept @ [?e1]" "latest ?kept" ?mv u h]
  obtain s where s: "run_program c E = Inr s" "rs_exit s = None"
    "rs_written s = Some (json_stringify
       (set_record doc1 key (JObj (alist_put rk ''updates'' (JArr ((?kept @ [?e1]) @ [?e2]))))))"
    using two_manifest_run [OF st zip q dig out, unfolded m, OF hm1 hm2 pe1 pe2] by blast
  moreover have "record_updates (set_record doc1 key (JObj (alist_put rk ''updates'' (JArr ((?kept @ [?e1]) @ [?e2]))))) key =
                   Some (?kept @ [?e1, ?e2])"
    using record_updates_set_record [OF d1] by simp
  ultimately show ?thesis using ver by (auto simp: new_entry_version)
qed

theorem duplicate_manifest_race_witness:
  "\<exists>s D e1 e2. run_program ex_cli (ex_env [ex_manifest_entry, ex_manifest_entry, ZClose]) = Inr s \<and>
     rs_exit s = None \<and> rs_written s = Some (json_stringify D) \<and>
     record_updates D ''ext@x'' = Some (filter (\<lambda>e. \<not> same_version (Some (JStr ''1.0'')) e) [] @ [e1, e2]) \<and>
     own_prop e1 ''version'' = Some (JStr ''1.0'') \<and> own_prop e2 ''version'' = Some (JStr ''1.0'')"
proof (rule duplicate_manifest_race [where cfg = "\<lparr>file_path = ''a.xpi'', update_in = Some ''u.json'',
          update_out = Some ''u.json'', update_link = Some ''https://h/@version@''\<rparr>"
          and chunks = "[map byte_of ex_manifest_text]" and post = "[ZClose]" and h = "''ab''"
          and out = "''u.json''" and m = ex_addon_manifest and akvs = "[]" and rkvs = "[]"])
  show "addon_id_of (Some ex_addon_manifest) = Some (JStr ''ext@x'')"
    by (simp add: addon_id_of_def prop_of_def)
qed (simp_all add: start_def js_or_def quiet_event_def load_update_def empty_update_def
                   sha256_from_file_def ex_manifest_parse prop_of_def js_eval)

text \<open>
  C28. With one \<^verbatim>\<open>manifest.json\<close> entry, the sequential run refines the merge: when
  the digest resolves, a writable output makes the run end normally having written
  exactly the document \<open>merge_version\<close> computes from the loaded update manifest,
  and an output that cannot be written ends it with "Could not write update file"
  and nothing recorded as written (lines 147--155).
\<close>

theorem single_manifest_refines_merge:
  assumes st: "start c E = Inr cfg"
    and zip: "zip_events E = pre @ ZEntry ''manifest.json'' chunks # post"
    and q: "list_all quiet_event pre" "list_all quiet_event post"
    and dig: "sha256_from_file (hasher E) (file_stream E) = Some (Digest_Hex h)"
    and out: "update_out cfg = Some out" "out \<noteq> []"
    and mg: "merge_version cfg (fst (load_update E cfg))
               (json_parse_text (map char_of_byte (concat chunks))) h = Inr (doc', logs)"
  shows "\<exists>s. run_program c E = Inr s \<and>
             (if write_ok E out then rs_exit s = None \<and> rs_written s = Some (json_stringify doc')
              else rs_exit s = Some (Err_Write out) \<and> rs_written s = None)"
  using single_manifest_run [OF st zip q dig out mg] by (auto split: if_splits)

theorem single_manifest_refines_merge_witness:
  "(\<exists>s. run_program ex_cli (ex_env [ZEntry ''icon.png'' [], ex_manifest_entry, ZClose]) = Inr s \<and>
        rs_exit s = None \<and>
        rs_written s = Some (json_stringify (JObj [(''addons'', JObj [(''ext@x'', JObj [(''updates'', JArr
           [JObj [(''version'', JStr ''1.0''), (''update_hash'', JStr ''sha256:ab''),
                  (''update_link'', JStr ''https://h/1.0'')]])])])]))) \<and>
   (\<exists>s. run_program ex_cli ((ex_env [ZEntry ''icon.png'' [], ex_manifest_entry, ZClose])
                               \<lparr>write_ok := \<lambda>p. False\<rparr>) = Inr s \<and>
        rs_exit s = Some (Err_Write ''u.json'') \<and> rs_written s = None)"
proof -
  let ?E = "ex_env [ZEntry ''icon.png'' [], ex_manifest_entry, ZClose]"
  let ?cfg = "\<lparr>file_path = ''a.xpi'', update_in = Some ''u.json'', update_out = Some ''u.json'',
              update_link = Some ''https://h/@version@''\<rparr>"
  let ?D = "JObj [(''addons'', JObj [(''ext@x'', JObj [(''updates'', JArr
              [JObj [(''version'', JStr ''1.0''), (''update_hash'', JStr ''sha256:ab''),
                     (''update_link'', JStr ''https://h/1.0'')]])])])]"
  have ok: "\<exists>s. run_program ex_cli ?E = Inr s \<and>
              (if write_ok ?E ''u.json'' then rs_exit s = None \<and> rs_written s = Some (json_stringify ?D)
               else rs_exit s = Some (Err_Write ''u.json'') \<and> rs_written s = None)"
    by (rule single_manifest_refines_merge [where cfg = ?cfg and pre = "[ZEntry ''icon.png'' []]"
          and post = "[ZClose]" and chunks = "[map byte_of ex_manifest_text]" and logs = "[]"])
       (simp_all add: start_def js_or_def quiet_event_def load_update_def empty_update_def
                      sha256_from_file_def ex_manifest_parse merge_eval js_eval)
  have fail: "\<exists>s. run_program ex_cli (?E\<lparr>write_ok := \<lambda>p. False\<rparr>) = Inr s \<and>
              (if write_ok (?E\<lparr>write_ok := \<lambda>p. False\<rparr>) ''u.json'' then rs_exit s = None \<and> rs_written s = Some (json_stringify ?D)
               else rs_exit s = Some (Err_Write ''u.json'') \<and> rs_written s = None)"
    by (rule single_manifest_refines_merge [where cfg = ?cfg and pre = "[ZEntry ''icon.png'' []]"
          and post = "[ZClose]" and chunks = "[map byte_of ex_manifest_text]" and logs = "[]"])
       (simp_all add: start_def js_or_def quiet_event_def load_update_def empty_update_def
                      sha256_from_file_def ex_manifest_parse merge_eval js_eval)
  from ok fail show ?thesis by simp
qed

text \<open>
  C29. Under every schedule of the event loop, an archive with one \<^verbatim>\<open>manifest.json\<close>
  entry writes nothing but the document \<open>merge_version\<close> computes from the loaded
  update manifest, the parsed entry and the digest the promise resolved with.
\<close>

theorem single_manifest_writes_merge:
  assumes st: "start c E = Inr cfg"
    and zip: "zip_events E = pre @ ZEntry ''manifest.json'' chunks # post"
    and q: "list_all quiet_event pre" "list_all quiet_event post"
    and reach: "reachable c E s" and w: "rs_written s = Some t"
  shows "\<exists>h d lg. sha256_from_file (hasher E) (file_stream E) = Some (Digest_Hex h) \<and>
                merge_version cfg (fst (load_update E cfg)) (json_parse_text (map char_of_byte (concat chunks))) h =
                  Inr (d, lg) \<and> t = json_stringify d"
proof -
  have path: "(run_step cfg E)\<^sup>*\<^sup>* (init_state E (fst (load_update E cfg)) (snd (load_update E cfg))) s"
    using reachable_path [OF reach] st by auto
  have "single_inv cfg E (fst (load_update E cfg)) chunks post s"
    using path
  proof (induction rule: rtranclp_induct)
    case base
    then show ?case using zip q(1) by (auto simp: single_inv_def init_state_def)
  next
    case (step t t')
    show ?case by (rule single_inv_step [OF step.hyps(2) step.IH q(2)])
  qed
  with w show ?thesis by (simp add: single_inv_def)
qed

theorem single_manifest_writes_merge_witness:
  "\<exists>h d lg. sha256_from_file ex_hasher [RData [171], REnd] = Some (Digest_Hex h) \<and>
            merge_version \<lparr>file_path = ''a.xpi'', update_in = Some ''u.json'', update_out = Some ''u.json'',
                           update_link = Some ''https://h/@version@''\<rparr> empty_update (Some ex_addon_manifest) h =
              Inr (d, lg) \<and>
            json_stringify (JObj [(''addons'', JObj [(''ext@x'', JObj [(''updates'', JArr
                  [JObj [(''version'', JStr ''1.0''), (''update_hash'', JStr ''sha256:ab''),
                         (''update_link'', JStr ''https://h/1.0'')]])])])]) = json_stringify d"
proof -
  let ?E = "ex_env [ex_manifest_entry, ZClose]"
  let ?R = "projr (run_program ex_cli ?E)"
  have "run_program ex_cli ?E = Inr ?R" by code_simp
  then have r: "reachable ex_cli ?E ?R" by (rule run_program_reachable)
  have w: "rs_written ?R = Some (json_stringify (JObj [(''addons'', JObj [(''ext@x'', JObj [(''updates'', JArr
                  [JObj [(''version'', JStr ''1.0''), (''update_hash'', JStr ''sha256:ab''),
                         (''update_link'', JStr ''https://h/1.0'')]])])])]))"
    by code_simp
  have st: "start ex_cli ?E = Inr \<lparr>file_path = ''a.xpi'', update_in = Some ''u.json'', update_out = Some ''u.json'',
                                   update_link = Some ''https://h/@version@''\<rparr>"
    by (simp add: start_def js_or_def)
  from single_manifest_writes_merge [OF st, of "[]" "[map byte_of ex_manifest_text]" "[ZClose]", OF _ _ _ r w]
  show ?thesis
    by (simp add: quiet_event_def load_update_def ex_manifest_parse)
qed

end
