(* ===== verification/Wellformed.thy ===== *)
theory Wellformed
  imports Program Json
begin

text \<open>
  Well-formedness of the documents the script handles (\<open>wf_json\<close> of \<open>Json\<close>:
  JSON number texts and no repeated key) through every step of the merge engine, and the
  invariant of the event loop that the document held in \<^verbatim>\<open>update\<close> and everything
  written to the output path stay well formed. \<^verbatim>\<open>JSON.parse\<close> returns well-formed
  values (\<open>Json.json_parse_wf\<close>), so both the input file and every
  \<^verbatim>\<open>manifest.json\<close> enter the run well formed. These lemmas carry the next run's
  reading of the written file in the root theory.
\<close>

section \<open>The steps of the merge\<close>

abbreviation wf_jsval :: "jsval \<Rightarrow> bool" where
  "wf_jsval \<equiv> pred_option wf_json"

text \<open>What the handler leaves for the digest's callback is well formed.\<close>

definition wf_pending :: "pending \<Rightarrow> bool" where
  "wf_pending p = (wf_jsval (pend_last p) \<and> wf_jsval (pend_version p))"

text \<open>The state of the event loop is well formed.\<close>

definition wf_run :: "run_state \<Rightarrow> bool" where
  "wf_run s = (wf_json (rs_doc s) \<and> pred_option (\<lambda>t. \<exists>d. wf_json d \<and> t = json_stringify d) (rs_written s) \<and>
               list_all wf_pending (rs_pending s))"

lemma wf_map_of: "list_all (\<lambda>kv. wf_json (snd kv)) kvs \<Longrightarrow> wf_jsval (map_of kvs k)"
  by (induction kvs) auto

lemma wf_own_prop: "wf_json x \<Longrightarrow> wf_jsval (own_prop x k)"
  by (cases x) (simp_all add: wf_map_of)

lemma wf_prop_of: "wf_jsval v \<Longrightarrow> wf_jsval (prop_of v k)"
  by (auto simp: prop_of_def wf_own_prop split: option.splits)

lemma wf_js_get: "wf_jsval v \<Longrightarrow> js_get v k = Inr r \<Longrightarrow> wf_jsval r"
  by (auto simp: js_get_def wf_own_prop wf_map_of split: option.splits json.splits)

lemma wf_json_put: "wf_json x \<Longrightarrow> wf_json y \<Longrightarrow> wf_json (json_put x k y)"
  by (cases x) (simp_all add: list_all_alist_put)

lemma wf_set_record: "wf_json doc \<Longrightarrow> wf_json r \<Longrightarrow> wf_json (set_record doc key r)"
  using wf_own_prop [of doc "''addons''"]
  by (auto simp: set_record_def wf_json_put split: option.splits)

lemma wf_ensure_addon:
  "wf_json doc \<Longrightarrow> ensure_addon doc key = Inr (doc1, r, md) \<Longrightarrow> wf_json doc1 \<and> wf_jsval r"
  using wf_js_get [of "Some doc" "''addons''"]
  by (auto simp: ensure_addon_def wf_set_record wf_map_of dest: wf_js_get split: sum.splits option.splits json.splits if_splits)

lemma wf_updates_of: "wf_jsval r \<Longrightarrow> updates_of r = Inr xs \<Longrightarrow> list_all wf_json xs"
  by (auto simp: updates_of_def dest: wf_js_get split: sum.splits if_splits option.splits json.splits)

lemma track_last_result: "track_last lastv e = Inr r \<Longrightarrow> r = lastv \<or> r = Some e"
  by (auto simp: track_last_def split: if_splits sum.splits)

lemma scan_updates_from:
  "scan_updates mv lastv xs = Inr (kept, lv, logs) \<Longrightarrow>
   set kept \<subseteq> set xs \<and> (lv = lastv \<or> lv \<in> Some ` set xs)"
proof (induction xs arbitrary: lastv kept logs)
  case Nil
  then show ?case by simp
next
  case (Cons e es)
  obtain lastv' where tl: "track_last lastv e = Inr lastv'"
    using Cons.prems by (auto split: sum.splits)
  obtain kept' logs' where rec: "scan_updates mv lastv' es = Inr (kept', lv, logs')"
    and k: "set kept \<subseteq> insert e (set kept')"
    using Cons.prems tl by (auto split: sum.splits if_splits prod.splits)
  from Cons.IH [OF rec] track_last_result [OF tl] k show ?case by auto
qed

lemma wf_store_updates:
  "wf_json doc \<Longrightarrow> wf_jsval r \<Longrightarrow> list_all wf_json kept \<Longrightarrow> wf_json (fst (store_updates doc key r m kept))"
  by (auto simp: store_updates_def wf_set_record list_all_alist_put split: option.splits json.splits)

lemma wf_scan_updates:
  "list_all wf_json xs \<Longrightarrow> scan_updates mv None xs = Inr (kept, lv, logs) \<Longrightarrow>
   list_all wf_json kept \<and> wf_jsval lv"
  by (drule scan_updates_from) (auto simp: list_all_iff)

lemma wf_handle_manifest:
  assumes wd: "wf_json doc" and wm: "wf_json m"
    and h: "handle_manifest cfg doc (Some m) = Inr (doc2, po, logs)"
  shows "wf_json doc2 \<and> pred_option wf_pending po"
proof (cases "str_truthy (update_out cfg) \<and> js_truthy (addon_id_of (Some m))")
  case False
  then show ?thesis using h wd by (auto simp: handle_manifest_def split: if_splits)
next
  case True
  let ?key = "js_to_string (addon_id_of (Some m))" and ?mv = "prop_of (Some m) ''version''"
  from h True obtain doc1 r md xs kept lv lg md2 p where
    e: "ensure_addon doc ?key = Inr (doc1, r, md)" and u: "updates_of r = Inr xs"
    and sc: "scan_updates ?mv None xs = Inr (kept, lv, lg)"
    and st: "store_updates doc1 ?key r md kept = (doc2, md2)"
    and p: "po = Some p" "pend_last p = lv" "pend_version p = ?mv"
    by (auto simp: handle_manifest_def lift_exc_def Let_def split: sum.splits prod.splits)
  from wf_ensure_addon [OF wd e] have w1: "wf_json doc1" and wr: "wf_jsval r" by simp_all
  from wf_scan_updates [OF wf_updates_of [OF wr u] sc] have "list_all wf_json kept" and "wf_jsval lv"
    by simp_all
  with w1 wr st have "wf_json doc2" using wf_store_updates [of doc1 r kept ?key md] by simp
  moreover have "wf_pending p" using p \<open>wf_jsval lv\<close> wm by (simp add: wf_pending_def wf_prop_of)
  ultimately show ?thesis using p by simp
qed

lemma set_foldl_put:
  "set (foldl (\<lambda>t' (k, v). alist_put t' k v) t kvs) \<subseteq> set t \<union> set kvs"
proof (induction kvs arbitrary: t)
  case Nil
  then show ?case by simp
next
  case (Cons kv kvs)
  obtain k v where kv: "kv = (k, v)" by (cases kv)
  have "set (foldl (\<lambda>t' (k, v). alist_put t' k v) (alist_put t k v) kvs) \<subseteq> set (alist_put t k v) \<union> set kvs"
    by (rule Cons.IH)
  with set_alist_put [of t k v] kv show ?case by auto
qed

lemma wf_own_enum_props: "wf_jsval v \<Longrightarrow> kv \<in> set (own_enum_props v) \<Longrightarrow> wf_jsval (snd kv)"
  by (cases kv, cases v rule: own_enum_props.cases)
     (auto simp: list_all_iff dest!: set_zip_rightD)

lemma wf_drop_undefined:
  assumes "distinct (map fst kvs)" and "\<forall>kv\<in>set kvs. wf_jsval (snd kv)"
  shows "wf_json (drop_undefined kvs)"
proof -
  obtain kvs' where e: "drop_undefined kvs = JObj kvs'" and d: "distinct (map fst kvs')"
    using drop_undefined_distinct [OF assms(1)] by blast
  have "list_all (\<lambda>kv. wf_json (snd kv)) kvs'"
    using e assms(2) by (force simp: drop_undefined_def list_all_iff)
  with e d show ?thesis by simp
qed

lemma set_object_assign: "set (object_assign [] srcs) \<subseteq> set (concat srcs)"
  using set_foldl_put [of "[]" "concat srcs"] by (simp add: object_assign_concat)

lemma wf_new_entry_json: "wf_jsval lastv \<Longrightarrow> wf_jsval mv \<Longrightarrow> wf_json (new_entry lastv mv h url)"
  unfolding new_entry_def
proof (rule wf_drop_undefined)
  show "distinct (map fst (object_assign [] [own_enum_props lastv,
          [(''version'', mv), (''update_hash'', Some (JStr (''sha256:'' @ h))),
           (''update_link'', Some (JStr url))]]))"
    by (rule distinct_object_assign) simp
next
  assume "wf_jsval lastv" and "wf_jsval mv"
  then show "\<forall>kv\<in>set (object_assign [] [own_enum_props lastv,
          [(''version'', mv), (''update_hash'', Some (JStr (''sha256:'' @ h))),
           (''update_link'', Some (JStr url))]]). wf_jsval (snd kv)"
    using set_object_assign wf_own_enum_props [of lastv] by fastforce
qed

lemma wf_push_entry:
  assumes wd: "wf_json doc" and wp: "wf_pending p" and e: "push_entry doc p h = Inr doc'"
  shows "wf_json doc'"
proof (cases "pend_mode p")
  case Visible
  let ?entry = "new_entry (pend_last p) (pend_version p) h (pend_url p)"
  from e Visible obtain addons rv xs where
    a: "js_get (Some doc) ''addons'' = Inr addons" and r: "js_get addons (pend_key p) = Inr (Some rv)"
    and u: "js_get (Some rv) ''updates'' = Inr (Some (JArr xs))"
    and d: "doc' = set_record doc (pend_key p) (json_put rv ''updates'' (JArr (xs @ [?entry])))"
    by (auto simp: push_entry_def Let_def split: sum.splits option.splits json.splits prod.splits)
  have wa: "wf_jsval addons" using wf_js_get [OF _ a] wd by simp
  have wr: "wf_json rv" using wf_js_get [OF wa r] by simp
  have wx: "list_all wf_json xs" using wf_js_get [OF _ u] wr by simp
  have "wf_json ?entry" using wp by (simp add: wf_pending_def wf_new_entry_json)
  with wx wr have "wf_json (json_put rv ''updates'' (JArr (xs @ [?entry])))"
    by (simp add: wf_json_put)
  with d wd show ?thesis by (simp add: wf_set_record)
qed (use e wd in \<open>simp_all add: push_entry_def\<close>)

text \<open>A merge of a well-formed manifest into a well-formed document gives a well-formed document.\<close>

lemma merge_preserves_wf:
  assumes wd: "wf_json doc" and wm: "wf_json m"
    and e: "merge_version cfg doc (Some m) h = Inr (doc', logs)"
  shows "wf_json doc'"
proof (cases "handle_manifest cfg doc (Some m)")
  case (Inr res)
  then obtain doc1 po lg where r: "handle_manifest cfg doc (Some m) = Inr (doc1, po, lg)"
    by (cases res) auto
  from wf_handle_manifest [OF wd wm r] have w1: "wf_json doc1" and wp: "pred_option wf_pending po"
    by simp_all
  show ?thesis
  proof (cases po)
    case None
    with e r w1 show ?thesis by (simp add: merge_version_def)
  next
    case (Some p)
    with e r obtain d2 where pe: "push_entry doc1 p h = Inr d2" and d: "doc' = d2"
      by (auto simp: merge_version_def split: sum.splits)
    from Some wp have "wf_pending p" by simp
    with wf_push_entry [OF w1 _ pe] d show ?thesis by simp
  qed
qed (use e in \<open>simp add: merge_version_def\<close>)

section \<open>The event loop\<close>

lemma wf_empty_update: "wf_json empty_update"
  by (simp add: empty_update_def)

lemma wf_load_update: "wf_json (fst (load_update E cfg))"
  using json_parse_wf
  by (auto simp: load_update_def wf_empty_update split: option.splits if_splits)
     (metis option.pred_inject(2))

lemma wf_zip_step:
  assumes w: "wf_run s"
  shows "wf_run (zip_step cfg E s ev)"
proof (cases ev)
  case (ZEntry path chunks)
  let ?parsed = "json_parse_text (map char_of_byte (concat chunks))"
  show ?thesis
  proof (cases "path = ''manifest.json''")
    case True
    show ?thesis
    proof (cases "handle_manifest cfg (rs_doc s) ?parsed")
      case (Inr res)
      then obtain doc1 po lg where r: "res = (doc1, po, lg)" by (cases res) auto
      from Inr r obtain m where m: "?parsed = Some m"
        by (cases ?parsed) (auto simp: handle_manifest_def)
      have "wf_json m" using json_parse_wf [of "map char_of_byte (concat chunks)"] m by simp
      with w Inr r m have "wf_json doc1 \<and> pred_option wf_pending po"
        using wf_handle_manifest [of "rs_doc s" m cfg doc1 po lg] by (simp add: wf_run_def)
      with w Inr r ZEntry True show ?thesis
        by (cases po) (auto simp: wf_run_def zip_step_def handle_step_def)
    qed (use w ZEntry True in \<open>simp add: wf_run_def zip_step_def handle_step_def\<close>)
  qed (use w ZEntry in \<open>simp add: wf_run_def zip_step_def\<close>)
qed (use w in \<open>simp_all add: wf_run_def zip_step_def\<close>)

lemma wf_callback_step:
  assumes w: "wf_run s" and p: "wf_pending p"
  shows "wf_run (callback_step cfg E d p s)"
proof (cases d)
  case (Digest_Hex h)
  show ?thesis
  proof (cases "push_entry (rs_doc s) p h")
    case (Inr doc')
    have "wf_json doc'" using wf_push_entry [OF _ p Inr] w by (simp add: wf_run_def)
    with w Inr Digest_Hex show ?thesis
      by (auto simp: wf_run_def callback_step_def split: option.splits)
  qed (use w Digest_Hex in \<open>simp add: wf_run_def callback_step_def\<close>)
qed (use w in \<open>simp add: wf_run_def callback_step_def\<close>)

lemma wf_run_step:
  assumes "run_step cfg E s s'" and "wf_run s"
  shows "wf_run s'"
  using assms(1)
proof (cases rule: run_step.cases)
  case (zip_event ev evs)
  have "wf_run (s\<lparr>rs_zip := evs\<rparr>)" using assms(2) by (simp add: wf_run_def)
  with zip_event show ?thesis using wf_zip_step by simp
next
  case (digest_settled i d)
  have "wf_pending (rs_pending s ! i)" using assms(2) digest_settled(3)
    by (simp add: wf_run_def list_all_length)
  moreover have "wf_run (s\<lparr>rs_pending := take i (rs_pending s) @ drop (Suc i) (rs_pending s)\<rparr>)"
    using assms(2) by (auto simp: wf_run_def list_all_iff dest: in_set_takeD in_set_dropD)
  ultimately show ?thesis using digest_settled wf_callback_step by simp
qed

lemma wf_run_init: "wf_run (init_state E (fst (load_update E cfg)) lg)"
  by (simp add: wf_run_def init_state_def wf_load_update)

text \<open>
  In every state the event loop reaches, under any schedule, the document held in
  \<^verbatim>\<open>update\<close> is well formed and the last text written is the serialisation of a
  well-formed document.
\<close>

lemma wf_reachable: "reachable c E s \<Longrightarrow> wf_run s"
proof -
  assume r: "reachable c E s"
  from reachable_path [OF r] obtain cfg where
    path: "(run_step cfg E)\<^sup>*\<^sup>* (init_state E (fst (load_update E cfg)) (snd (load_update E cfg))) s"
    by blast
  then show "wf_run s"
    by (induction rule: rtranclp_induct) (auto intro: wf_run_init wf_run_step)
qed

end
