(* ===== verification/Console.thy ===== *)
theory Console
  imports Program
begin

text \<open>
  What the script prints and how its process ends: the text of every
  \<^verbatim>\<open>console.info\<close>, \<^verbatim>\<open>console.warn\<close> and \<^verbatim>\<open>console.error\<close> call of
  \<^verbatim>\<open>src/updater.js\<close>, the usage text of \<^verbatim>\<open>Usage()\<close> (lines 19--41), and the
  exit status of \<^verbatim>\<open>process.exit(-1)\<close> as an 8-bit word. A run's transcript is read
  off the messages (\<open>log\<close>) and the failure (\<open>failure\<close>) of \<open>Program\<close>.
\<close>

section \<open>Console lines\<close>

text \<open>
  \<^verbatim>\<open>console.info\<close> writes to standard output, \<^verbatim>\<open>console.warn\<close> and
  \<^verbatim>\<open>console.error\<close> to standard error. A console line is its stream and its text,
  without the final newline.
\<close>

datatype stream = Stdout | Stderr

text \<open>
  Lines 19--41, \<^verbatim>\<open>Usage()\<close>: the template literal of line 20, one string per
  source line. A backslash at the end of a source line is a line continuation of the
  template literal and contributes nothing; the literal ends with a newline.
\<close>

definition usage_text :: string where
  \<open>usage_text = join_with [CHR 0x0A]
     [''Usage: faauv [options] <xpi file path>'',
      ''Options:'',
      ''  --update-in <update.json file path>: path to original update.json file'',
      ''  --update-out <update.json file path>: path to update.json file to be created'',
      ''  --update <update.json file path>: shortcut to specify both --update-in and --update-out'',
      ''  --update-link <url where to download xpi>: update link to download new add-on version'',
      '''',
      ''Notes:'',
      ''  When using the --update-link option, you can use the placeholder @version@ to be replaced by the new add-on version string.'',
      '''',
      ''  If former versions already exist in the original update.json, all the extra parameters (e.g {"applications":{"gecko":{"strict-minimum-version":"..."}}}) from the latest version are re-used in the new entry.'',
      '''',
      ''  This is also the case for the update_link property, if not specified as command line parameter, with the version string being replaced in the url. For instance if a previous version "1.0.1" had update_link "https://mysite.com/download?v=1.0.1" and you add version "1.0.2" without specifying the update-link option, the new entry will automatically set update_link to "https://mysite.com/download?v=1.0.2".'',
      '''']\<close>

text \<open>
  \<^verbatim>\<open>console.*(a1, a2, ...)\<close> on string arguments: \<^verbatim>\<open>util.format\<close> joins them
  with one space. No first argument of the script holds a \<^verbatim>\<open>%\<close>, so none is
  a format string.
\<close>

definition console_format :: "string list \<Rightarrow> string" where
  "console_format args = join_with '' '' args"

text \<open>
  The line each non-fatal message prints (lines 70, 96, 98, 120, 131, 150, 162).
  \<open>emsg\<close> is the \<^verbatim>\<open>message\<close> of the exception a line reports, which the runtime
  writes and the model does not compute.
\<close>

definition log_line :: "string \<Rightarrow> log \<Rightarrow> stream \<times> string" where
  "log_line emsg l =
     (case l of
        Warn_UpdateFileUnreadable p \<Rightarrow>
          (Stderr, console_format [''Could not read update file'', p, '':'', emsg, ''. Assuming new update manifest''])
      | Err_NoManifestInArchive p \<Rightarrow> (Stderr, console_format [''No manifest.json found in'', p])
      | Warn_Unsigned p \<Rightarrow> (Stderr, console_format [''File'', p, ''has not been signed by Mozilla''])
      | Warn_DuplicateVersion v \<Rightarrow> (Stderr, console_format [''Found already existing version'', v, ''in update file''])
      | Info_ReusingUrl a b \<Rightarrow> (Stdout, console_format [''Reusing former update URL'', a, ''=>'', b])
      | Info_Written p \<Rightarrow> (Stdout, console_format [''Update file written'', p])
      | Info_NoOutputPath \<Rightarrow>
          (Stdout, ''No update.json output path specified. You may want to use option --update-out or --update''))"

text \<open>
  The line printed before each \<^verbatim>\<open>process.exit(-1)\<close>: \<^verbatim>\<open>Usage()\<close> at line 44
  and lines 52, 110, 133, 152, 158, 164. An \<^verbatim>\<open>error\<close> event of the unzip parser has no listener: Node reports
  the uncaught exception itself, which is not a line of the script.
\<close>

definition failure_line :: "string \<Rightarrow> failure \<Rightarrow> (stream \<times> string) list" where
  "failure_line emsg f =
     (case f of
        Err_Usage \<Rightarrow> [(Stdout, usage_text)]
      | Err_FileMissing p \<Rightarrow> [(Stderr, console_format [''File'', p, ''does not exist''])]
      | Err_NoAddonId \<Rightarrow> [(Stderr, ''Add-on id not found in manifest'')]
      | Err_NoUpdateUrl \<Rightarrow> [(Stderr, ''No update URL specified nor reused. Try using parameter --update-link'')]
      | Err_ManifestParse \<Rightarrow> [(Stderr, console_format [''Could not parse manifest'', emsg])]
      | Err_Hash \<Rightarrow> [(Stderr, console_format [''Could not compute hash:'', emsg])]
      | Err_Write p \<Rightarrow> [(Stderr, console_format [''Could not write update file'', p, '':'', emsg])]
      | Err_ArchiveCrash \<Rightarrow> [])"

text \<open>
  The exit status the shell sees, an 8-bit value: \<^verbatim>\<open>process.exit(-1)\<close> wraps
  to 255; an uncaught exception exits with 1; a run that ends by itself exits with 0.
\<close>

definition exit_status :: "failure option \<Rightarrow> 8 word" where
  "exit_status r =
     (case r of
        None \<Rightarrow> 0
      | Some Err_ArchiveCrash \<Rightarrow> 1
      | Some f \<Rightarrow> word_of_int (-1))"

section \<open>What a run prints and how it ends\<close>

text \<open>
  The lines of a run, in order: the messages of the event loop, then the line of the
  failure that ended it. A failure before the loop (lines 43--56) prints only its line.
\<close>

definition program_console :: "string \<Rightarrow> failure + run_state \<Rightarrow> (stream \<times> string) list" where
  "program_console emsg r =
     (case r of
        Inl f \<Rightarrow> failure_line emsg f
      | Inr s \<Rightarrow> map (log_line emsg) (rs_logs s) @
                 (case rs_exit s of None \<Rightarrow> [] | Some f \<Rightarrow> failure_line emsg f))"

definition program_exit :: "failure + run_state \<Rightarrow> 8 word" where
  "program_exit r = (case r of Inl f \<Rightarrow> exit_status (Some f) | Inr s \<Rightarrow> exit_status (rs_exit s))"

section \<open>Properties of the console\<close>

text \<open>
  C11. A run whose archive has one \<^verbatim>\<open>manifest.json\<close> that merges, whose digest
  resolves and whose output path can be written ends normally (status 0) having
  written the merged document; it prints every message of the merge, and its last
  line is "Update file written <path>" on standard output (line 150).
\<close>

theorem single_manifest_console:
  assumes st: "start c E = Inr cfg"
    and zip: "zip_events E = pre @ ZEntry ''manifest.json'' chunks # post"
    and q: "list_all quiet_event pre" "list_all quiet_event post"
    and dig: "sha256_from_file (hasher E) (file_stream E) = Some (Digest_Hex h)"
    and out: "update_out cfg = Some out" "out \<noteq> []" "write_ok E out"
    and mg: "merge_version cfg (fst (load_update E cfg))
               (json_parse_text (map char_of_byte (concat chunks))) h = Inr (doc', logs)"
  shows "\<exists>s. run_program c E = Inr s \<and> program_exit (Inr s) = 0 \<and>
             rs_written s = Some (json_stringify doc') \<and>
             set (map (log_line m) logs) \<subseteq> set (program_console m (Inr s)) \<and>
             last (program_console m (Inr s)) = (Stdout, ''Update file written '' @ out)"
proof -
  obtain s ls where s: "run_program c E = Inr s" "set logs \<subseteq> set (rs_logs s)" "rs_exit s = None"
    "rs_written s = Some (json_stringify doc')" "rs_logs s = ls @ [Info_Written out]"
    using single_manifest_run [OF st zip q dig out(1,2) mg] out(3) by auto
  have "last (program_console m (Inr s)) = (Stdout, ''Update file written '' @ out)"
    using s(3,5) by (simp add: program_console_def log_line_def console_format_def)
  moreover have "set (map (log_line m) logs) \<subseteq> set (program_console m (Inr s))"
    using s(2) by (auto simp: program_console_def)
  ultimately show ?thesis using s by (simp add: program_exit_def exit_status_def)
qed

theorem single_manifest_console_witness:
  "\<exists>s. run_program ex_cli (ex_env [ZEntry ''icon.png'' [], ex_manifest_entry, ZClose]) = Inr s \<and>
        program_exit (Inr s) = 0 \<and>
        rs_written s = Some (json_stringify (JObj [(''addons'', JObj [(''ext@x'', JObj [(''updates'', JArr
           [JObj [(''version'', JStr ''1.0''), (''update_hash'', JStr ''sha256:ab''),
                  (''update_link'', JStr ''https://h/1.0'')]])])])])) \<and>
        set (map (log_line []) []) \<subseteq> set (program_console [] (Inr s)) \<and>
        last (program_console [] (Inr s)) = (Stdout, ''Update file written '' @ ''u.json'')"
  by (rule single_manifest_console [where cfg = "\<lparr>file_path = ''a.xpi'', update_in = Some ''u.json'',
          update_out = Some ''u.json'', update_link = Some ''https://h/@version@''\<rparr>"
          and pre = "[ZEntry ''icon.png'' []]" and post = "[ZClose]"
          and chunks = "[map byte_of ex_manifest_text]"])
     (simp_all add: start_def js_or_def quiet_event_def load_update_def empty_update_def
                    sha256_from_file_def ex_manifest_parse merge_eval js_eval)

text \<open>
  C22. The run fails before the archive is read only for a missing positional
  argument or an archive path that does not exist. With no argument it prints the usage
  text on standard output, and with a missing archive "File <path> does not exist" on
  standard error; either way it exits with status 255, the 8-bit image of
  \<^verbatim>\<open>process.exit(-1)\<close>. Every other failure happens in the event loop.
\<close>

theorem run_fails_early:
  "run_program c E = Inl f \<longleftrightarrow>
   program_exit (Inl f) = 255 \<and>
   (case positional c of
      [] \<Rightarrow> f = Err_Usage \<and> program_console m (Inl f) = [(Stdout, usage_text)]
    | p # _ \<Rightarrow> \<not> file_exists E p \<and> f = Err_FileMissing p \<and>
              program_console m (Inl f) = [(Stderr, ''File '' @ p @ '' does not exist'')])"
  by (auto simp: run_program_def program_init_def start_def program_exit_def exit_status_def
                 program_console_def failure_line_def console_format_def
           split: list.splits sum.splits prod.splits)

text \<open>
  C26. With no \<^verbatim>\<open>manifest.json\<close> in the archive the run prints
  "No manifest.json found in <archive>" on standard error at \<^verbatim>\<open>close\<close> (line 96),
  writes no update file, and exits with status 0.
\<close>

theorem no_manifest_exits_normally:
  assumes q: "list_all quiet_event (zip_events E)" and cl: "ZClose \<in> set (zip_events E)"
    and run: "run_program c E = Inr s"
  shows "program_exit (Inr s) = 0 \<and> rs_written s = None \<and>
         (Stderr, ''No manifest.json found in '' @ hd (positional c)) \<in> set (program_console m (Inr s))"
proof -
  have r: "rs_exit s = None" "rs_written s = None" "Err_NoManifestInArchive (hd (positional c)) \<in> set (rs_logs s)"
    using run_no_manifest [OF q cl run] by simp_all
  have "log_line m (Err_NoManifestInArchive (hd (positional c))) \<in> set (map (log_line m) (rs_logs s))"
    using r(3) by simp
  with r show ?thesis
    by (simp add: program_exit_def exit_status_def program_console_def log_line_def console_format_def)
qed

theorem no_manifest_exits_normally_witness:
  "program_exit (Inr (projr (run_program ex_cli (ex_env [ZEntry ''icon.png'' [], ZClose])))) = 0 \<and>
   rs_written (projr (run_program ex_cli (ex_env [ZEntry ''icon.png'' [], ZClose]))) = None \<and>
   (Stderr, ''No manifest.json found in a.xpi'') \<in>
     set (program_console [] (Inr (projr (run_program ex_cli (ex_env [ZEntry ''icon.png'' [], ZClose])))))"
proof -
  have "run_program ex_cli (ex_env [ZEntry ''icon.png'' [], ZClose]) =
          Inr (projr (run_program ex_cli (ex_env [ZEntry ''icon.png'' [], ZClose])))"
    by code_simp
  from no_manifest_exits_normally [OF _ _ this] show ?thesis by (simp add: quiet_event_def)
qed

end
