(* ===== verification/Spec2Isabelle.thy ===== *)
theory Spec2Isabelle
  imports Wellformed Console
begin

text \<open>
  A verification development of \<^verbatim>\<open>src/updater.js\<close> (firefox-addons-add-update-version),
  the command-line tool that adds an entry for a packaged add-on (an \<^verbatim>\<open>.xpi\<close> zip
  archive) to an update manifest (\<^verbatim>\<open>update.json\<close>).

  \<^bold>\<open>The program.\<close> The script checks its arguments (lines 43--59), loads the update
  manifest or defaults it to \<^verbatim>\<open>{addons:{}}\<close> (61--73), and streams the archive
  through an unzip parser (75--99). Every \<^verbatim>\<open>manifest.json\<close> entry is buffered and
  handed to \<^verbatim>\<open>HandleManifest\<close> (101--167). The handler:
  \<^item> finds the add-on id;
  \<^item> filters the existing entries of the same version while tracking the latest entry
    with the version comparator;
  \<^item> resolves the update link;
  \<^item> starts \<^verbatim>\<open>Sha256FromFile\<close> (169--182), a second stream over the archive.
  The promise's callback builds the new entry with \<^verbatim>\<open>Object.assign\<close>, appends it and
  writes the whole document (138--160).

  \<^bold>\<open>Theories, bottom up.\<close>
  \<^descr>[\<open>Prelude\<close>] Shared vocabulary: bytes as \<open>8 word\<close>, association lists with
    in-place update (the key order of JavaScript objects), the outcomes \<open>failure\<close>
    (every \<^verbatim>\<open>process.exit(-1)\<close> and the crash of an unhandled \<^verbatim>\<open>error\<close> event) and
    \<open>log\<close> (the non-fatal messages).
  \<^descr>[\<open>JsValue\<close>] JSON values, with \<^verbatim>\<open>undefined\<close> as \<open>None\<close>. It models truthiness,
    property reads that throw \<^verbatim>\<open>TypeError\<close> on \<^verbatim>\<open>null\<close>/\<^verbatim>\<open>undefined\<close>, strict
    equality, \<^verbatim>\<open>String()\<close> and \<^verbatim>\<open>Object.assign\<close>. It also models the way
    \<^verbatim>\<open>JSON.stringify\<close> drops \<^verbatim>\<open>undefined\<close> properties.
  \<^descr>[\<open>JsString\<close>] \<^verbatim>\<open>encodeURIComponent\<close> on UTF-8 byte strings, using word nibbles,
    and its decoder. \<^verbatim>\<open>String.prototype.replace\<close> with a string pattern: first
    occurrence only, with the \<^verbatim>\<open>$\<close>-patterns of \<^verbatim>\<open>GetSubstitution\<close>.
  \<^descr>[\<open>Version\<close>] The comparator \<^verbatim>\<open>mozilla-version-comparator\<close>. It is not in the
    repository, so it is modelled from the specification: runs of digits and
    non-digits. A non-string argument throws.
  \<^descr>[\<open>Merge\<close>] \<^verbatim>\<open>HandleManifest\<close> as \<open>handle_manifest\<close>. It returns the updated
    document and a \<open>pending\<close> record: what the digest callback needs. The callback's
    push is \<open>push_entry\<close> over \<open>new_entry\<close>. \<open>merge_version\<close> composes the two for
    one manifest and a computed digest. The filter loop of lines 116--124 is
    \<open>scan_updates\<close>, with \<open>track_last\<close> for \<^verbatim>\<open>lastVersion\<close>. The record mode
    (\<open>Visible\<close>, \<open>Hidden\<close>, \<open>Broken\<close>) records how the \<^verbatim>\<open>updates\<close> assignment
    behaves on a record that is an object, a primitive, or missing.
  \<^descr>[\<open>Digest\<close>] \<^verbatim>\<open>Sha256FromFile\<close>: read-stream events folded into an abstract
    hash interface (\<open>hash_iface\<close>: init, update, final). The promise outcome is
    \<open>None\<close> while it is pending.
  \<^descr>[\<open>Program\<close>] The whole script:
    \<^item> \<open>start\<close> (arguments);
    \<^item> \<open>load_update\<close>;
    \<^item> \<open>zip_step\<close> (the unzip handlers, calling \<open>handle_manifest\<close> through
      \<open>handle_step\<close>);
    \<^item> \<open>callback_step\<close> (the digest's callbacks and the write).
    The event loop is the inductive relation \<open>run_step\<close>: the next unzip event, or
    the callback of any digest in flight. \<open>run_program\<close> is a deterministic schedule
    of it: all unzip events, then the callbacks in order. Lemma
    \<open>run_program_reachable\<close> shows it is one of the relation's paths. The file
    system, \<^verbatim>\<open>JSON.parse\<close> and the archive's events form the environment record
    \<open>env\<close>.
  \<^descr>[\<open>Json\<close>] The text of line 149, \<^verbatim>\<open>JSON.stringify(update, null, 4)\<close>, as
    \<open>json_stringify\<close> (\<open>json_text\<close> with a gap of four spaces and
    \<open>quote_json\<close> for \<^verbatim>\<open>QuoteJSONString\<close>), and the reader of line 68,
    \<^verbatim>\<open>JSON.parse\<close>, as \<open>json_parse_text\<close>: a recursive-descent parser
    (\<open>parse_value\<close>, \<open>parse_elems\<close>, \<open>parse_members\<close>, \<open>parse_str\<close>,
    \<open>parse_number\<close>) with fuel. \<open>wf_json\<close> is the well-formedness of a document:
    JSON number texts and no repeated key.
  \<^descr>[\<open>Wellformed\<close>] \<open>wf_json\<close> through every step of the merge and as an
    invariant of \<open>run_step\<close> (\<open>wf_run\<close>). Its lemmas assume only that the
    environment's \<^verbatim>\<open>JSON.parse\<close> returns well-formed values; \<open>json_parse_text\<close>
    discharges that interface (C38).
  \<^descr>[\<open>Console\<close>] What a run prints and how it ends. \<open>usage_text\<close> is the text
    of \<^verbatim>\<open>Usage()\<close> (lines 19--41). \<open>log_line\<close> and \<open>failure_line\<close> give the
    stream and text of every \<^verbatim>\<open>console\<close> call, with \<open>console_format\<close> for
    \<^verbatim>\<open>util.format\<close>. \<open>program_console\<close> is the transcript of a run and
    \<open>program_exit\<close> its exit status, an \<open>8 word\<close>: \<^verbatim>\<open>process.exit(-1)\<close> is 255.

  \<^bold>\<open>What is proved.\<close>
  \<^item> For the merge (Merge, claims C1--C17, except C11 and C13):
    \<^item> the new entry is appended after the entries of other versions;
    \<^item> it is the only entry of its version, and uniqueness of versions is preserved;
    \<^item> it carries the latest entry's extra fields;
    \<^item> the loop is a filter and a fold with the earliest-maximum tie-break;
    \<^item> link substitution works for the template and for reuse, and a link without
      the version is reused unchanged;
    \<^item> each failure path has a theorem.
  \<^item> Further merge claims (Merge, C31--C34):
    \<^item> the loop's \<^verbatim>\<open>lastVersion\<close> is the earliest entry of greatest version (C31);
    \<^item> versions that compare equal are still both kept (C32);
    \<^item> a primitive record fails as a hash failure (C33);
    \<^item> an \<^verbatim>\<open>addons\<close> array loses the entry (C34).
  \<^item> C13: \<^verbatim>\<open>encodeURIComponent\<close> is inverted by its decoder.
  \<^item> C30: the comparator is the three-way comparison of a linear order on version
    keys (List_Lexorder over Product_Lexorder), hence a total preorder.
  \<^item> For the digest (C18--C21):
    \<^item> streaming refines hashing the whole file for any chunking;
    \<^item> errors reject the promise;
    \<^item> the hex output has length and alphabet bounds;
    \<^item> the promise settles, and only once.
  \<^item> For the program (C22--C29, C11):
    \<^item> early failures, with the usage text or the missing-file line and exit status
      255 (Console, C22), and option defaults;
    \<^item> the fallback on an unreadable input file;
    \<^item> with no \<^verbatim>\<open>manifest.json\<close>, the process never fails, under every schedule,
      and ends normally with status 0 after the error line of line 96 (Console, C26);
    \<^item> the race with two \<^verbatim>\<open>manifest.json\<close> entries;
    \<^item> the end-to-end scenario of the specification as a whole run: the document
      written, the two lines printed and exit status 0 (Console, C11);
    \<^item> with one entry the run refines \<open>merge_version\<close>: the sequential run writes
      its document, or with an unwritable output fails with the write error and
      records nothing written (C28), and every schedule writes nothing else (C29, by rule
      induction over an invariant of \<open>run_step\<close>).
  \<^item> For the JSON text (Json, C35, C36, C38):
    \<^item> the serialised text of a well-formed document parses back to it (C35);
    \<^item> the parser's fuel is enough: it fails only where unbounded parsing fails (C36);
    \<^item> the parser returns well-formed documents (C38).
  \<^item> Composition (Wellformed and this theory, C37, C39, C40):
    \<^item> a merge keeps the document well formed (C37);
    \<^item> every reachable state holds and writes well-formed documents (C39);
    \<^item> a later run whose \<^verbatim>\<open>--update-in\<close> file is this run's output starts
      from the written document (C40).

  \<^bold>\<open>Findings.\<close> These theorems document behaviour the specification does not
  describe or contradicts:
  \<^item> the template replaces only its first placeholder (C15);
  \<^item> with no output path the manifest is not validated (C14);
  \<^item> a missing \<^verbatim>\<open>addons\<close> is reported as a manifest parse error (C16);
  \<^item> a manifest without \<^verbatim>\<open>version\<close> is accepted (C17);
  \<^item> an archive without \<^verbatim>\<open>manifest.json\<close> exits with status 0 (C26);
  \<^item> two \<^verbatim>\<open>manifest.json\<close> entries write a version twice (C27);
  \<^item> versions that compare equal are not deduplicated (C32);
  \<^item> a primitive record is reported as a hash failure (C33);
  \<^item> an \<^verbatim>\<open>addons\<close> array makes the written file silently lack the entry (C34).

  \<^bold>\<open>Bounds and fuel.\<close> Every loop of the script runs over a finite list:
  \<^item> the entries, by structural recursion;
  \<^item> the unzip events and the pending digests, by \<open>function\<close> with a measure on
    their length.
  A digest whose stream never ends stays \<open>None\<close>, and its callback never runs.
  The parser is the only function with fuel. \<open>json_parse_text s\<close> gives it
  \<open>length s + 1\<close> units. Each call spends one unit, and each call except the first
  element of an array reads at least one character, so this is enough (C36 proves it).
  Bytes are \<open>8 word\<close>. The nibble arithmetic of the hex encoders is proved in range.

  \<^bold>\<open>Not modelled.\<close>
  \<^item> The zip format (the unzip2 library).
  \<^item> The code of \<^verbatim>\<open>mozilla-version-comparator\<close>, which is not in the repository: the
    comparator is modelled from section 4.1 of the specification, and a non-string
    argument is taken to throw \<^verbatim>\<open>TypeError\<close>. That component stays partly modelled.
  \<^item> The SHA-256 compression function: the theorems hold for every hash with the
    streaming law.
  \<^item> Numbers as doubles: a JSON number is kept as its text, so that
    \<^verbatim>\<open>JSON.stringify\<close> writes it as it was read. The script never computes with the
    numbers of the update manifest. A \<open>\<backslash>u\<close> escape of a lone surrogate, which
    \<^verbatim>\<open>JSON.parse\<close> accepts, is rejected by the model. Strings are UTF-8 byte strings.
    Inside \<open>Program\<close>, \<^verbatim>\<open>JSON.parse\<close> stays a field of the environment; the
    theorems that need its behaviour assume it returns well-formed values, or that it is
    \<open>json_parse_text\<close>.
  \<^item> yargs's coercion of option values to numbers or booleans: options are strings.
  \<^item> Inherited properties (\<^verbatim>\<open>Object.prototype\<close>) and the index and
    \<^verbatim>\<open>length\<close> properties of arrays and strings: property reads see own
    properties of objects only. Add-on ids and the fields the script reads never
    name such properties in a valid manifest.
  \<^item> The text of runtime exceptions: the \<^verbatim>\<open>message\<close> of an exception a line
    reports is a parameter of the transcript, and Node's report of an uncaught
    \<^verbatim>\<open>error\<close> event is not a line of the script. A version printed by line 120
    is its \<^verbatim>\<open>String()\<close> text, which for a number is its JSON text.
\<close>

text \<open>
  C23. A later run reads back what this run wrote. In any state a run reaches, under any
  schedule, if the text \<open>t\<close> was written (line 149), then a run whose
  \<^verbatim>\<open>--update-in\<close> file holds \<open>t\<close> starts (line 68) from a document whose
  serialisation is \<open>t\<close>, with no warning: the output is always a valid input, and
  nothing of the written document is lost.
\<close>

theorem next_run_reads_written:
  assumes r: "reachable c E s" and w: "rs_written s = Some t"
    and E2: "file_exists E2 p" "read_file E2 p = Some t"
    and cfg2: "update_in cfg2 = Some p" "p \<noteq> []"
  shows "\<exists>d. load_update E2 cfg2 = (d, []) \<and> json_stringify d = t"
proof -
  from wf_reachable [OF r] w obtain d where wd: "wf_json d" and t: "t = json_stringify d"
    by (auto simp: wf_run_def)
  have "json_parse_text t = Some d" using json_roundtrip [OF wd] t by simp
  with E2 cfg2 t show ?thesis by (simp add: load_update_def)
qed

theorem next_run_reads_written_witness:
  "\<exists>d. load_update ((ex_env [])\<lparr>file_exists := \<lambda>q. True,
        read_file := \<lambda>q. Some (json_stringify (JObj [(''addons'', JObj [(''ext@x'', JObj [(''updates'', JArr
          [JObj [(''version'', JStr ''1.0''), (''update_hash'', JStr ''sha256:ab''),
                 (''update_link'', JStr ''https://h/1.0'')]])])])]))\<rparr>)
        \<lparr>file_path = ''a.xpi'', update_in = Some ''u.json'', update_out = Some ''u.json'', update_link = None\<rparr> =
      (d, []) \<and>
      json_stringify d = json_stringify (JObj [(''addons'', JObj [(''ext@x'', JObj [(''updates'', JArr
          [JObj [(''version'', JStr ''1.0''), (''update_hash'', JStr ''sha256:ab''),
                 (''update_link'', JStr ''https://h/1.0'')]])])])])"
proof (rule next_run_reads_written [where p = "''u.json''"])
  let ?E = "ex_env [ex_manifest_entry, ZClose]"
  let ?R = "projr (run_program ex_cli ?E)"
  have "run_program ex_cli ?E = Inr ?R" by code_simp
  then show "reachable ex_cli ?E ?R" by (rule run_program_reachable)
  show "rs_written ?R = Some (json_stringify (JObj [(''addons'', JObj [(''ext@x'', JObj [(''updates'', JArr
          [JObj [(''version'', JStr ''1.0''), (''update_hash'', JStr ''sha256:ab''),
                 (''update_link'', JStr ''https://h/1.0'')]])])])]))"
    by code_simp
qed simp_all

end
